theory Spec2Isabelle
  imports Complex_Main
begin

section \<open>Numbers\<close>

text \<open>
  Heights, offsets and scroll positions are JavaScript numbers.  They are taken here as
  exact reals: rounding, NaN and the infinities of the double format are outside the model.
  Item indices, segment indices and segment sizes are integers; lengths are naturals.
  The operator \<^verbatim>\<open>a || b\<close> on numbers yields \<^verbatim>\<open>b\<close> exactly when \<^verbatim>\<open>a\<close> is zero.
\<close>

definition js_or :: "real \<Rightarrow> real \<Rightarrow> real" where
  "js_or a b = (if a = 0 then b else a)"

section \<open>The segmenter (utils/virtualList.ts)\<close>

text \<open>
  \<^verbatim>\<open>list.slice(start, end)\<close> for non-negative integer bounds: the elements from position
  \<^verbatim>\<open>start\<close> up to, not including, \<^verbatim>\<open>end\<close>; both bounds are clamped to the length and an
  inverted range is empty.
\<close>

definition slice_js :: "nat \<Rightarrow> nat \<Rightarrow> 'a list \<Rightarrow> 'a list" where
  "slice_js start end xs = take (end - start) (drop start xs)"

text \<open>
  \<^verbatim>\<open>getSegmentList(list, segmentNum)\<close>: an empty list gives no segment, a non-positive
  size gives the whole list as one segment, otherwise
  \<^verbatim>\<open>totalPages = Math.ceil(list.length / segmentNum)\<close> slices of \<^verbatim>\<open>segmentNum\<close> items are
  cut, the last one ending at the end of the list.
\<close>

definition getSegmentList :: "'a list \<Rightarrow> int \<Rightarrow> 'a list list" where
  "getSegmentList list segmentNum =
     (if list = [] then []
      else if segmentNum \<le> 0 then [list]
      else
        let totalPages = nat \<lceil>real (length list) / real_of_int segmentNum\<rceil>
        in map (\<lambda>i.
                 let start = i * nat segmentNum;
                     end = min (start + nat segmentNum) (length list)
                 in slice_js start end list)
               [0..<totalPages])"

text \<open>
  \<^verbatim>\<open>segmentNum\<close> is a number or the string \<^verbatim>\<open>'smart'\<close>; \<^verbatim>\<open>createSegmentList\<close> resolves
  it to \<^verbatim>\<open>Math.max(10, Math.floor(Math.sqrt(list.length)))\<close> in the second case and hands
  the list to the configured segmenter \<^verbatim>\<open>getSegmentNum\<close> (by default \<^verbatim>\<open>getSegmentList\<close>).
\<close>

datatype SegmentNumType = Smart | Num int

definition resolveSegmentNum :: "SegmentNumType \<Rightarrow> 'a list \<Rightarrow> int" where
  "resolveSegmentNum segmentNum list =
     (case segmentNum of
        Smart \<Rightarrow> max 10 \<lfloor>sqrt (real (length list))\<rfloor>
      | Num n \<Rightarrow> n)"

definition createSegmentList ::
  "SegmentNumType \<Rightarrow> ('a list \<Rightarrow> int \<Rightarrow> 'a list list) \<Rightarrow> 'a list \<Rightarrow> 'a list list" where
  "createSegmentList segmentNum getSegmentNum list =
     getSegmentNum list (resolveSegmentNum segmentNum list)"

section \<open>Engine state (hooks/useVirtualList.ts)\<close>

text \<open>
  A render-list entry is either the item slice itself (\<^verbatim>\<open>Array.isArray(page)\<close>) or a
  placeholder object \<^verbatim>\<open>{ height }\<close>.
\<close>

datatype 'a VirtualListSegment = Rendered "'a list" | Placeholder real

text \<open>The per-page record \<^verbatim>\<open>ISubPage\<close> kept in \<^verbatim>\<open>subPageMapRef\<close>.\<close>

record ISubPage =
  sub_rendered :: bool
  sub_height :: real
  sub_length :: nat
  sub_items :: "real list"

text \<open>The result \<^verbatim>\<open>IItemScrollTop\<close> of \<^verbatim>\<open>getItemScrollTop\<close>.\<close>

record IItemScrollTop =
  height :: real
  scrollTop :: real
  rendered :: bool
  pageIndex :: int

text \<open>
  The mutable references and options of one hook instance that the position arithmetic
  reads: \<^verbatim>\<open>renderListRef\<close>, \<^verbatim>\<open>segmentListRef\<close>, \<^verbatim>\<open>subPageMapRef\<close>, \<^verbatim>\<open>headerHeightRef\<close>,
  the option \<^verbatim>\<open>guessItemHeight\<close> and the state \<^verbatim>\<open>isCompleted\<close>.
\<close>

record 'a engine =
  renderList :: "'a VirtualListSegment list"
  segmentList :: "'a list list"
  subPageMap :: "nat \<rightharpoonup> ISubPage"
  headerHeight :: real
  guessItemHeight :: real
  isCompleted :: bool

section \<open>Locating an item: getItemScrollTop\<close>

text \<open>
  The branch of the loop for a page that lies before the target: the height added to
  \<^verbatim>\<open>scrollTop\<close>.  A rendered page adds \<^verbatim>\<open>pageData?.height || pageLength * guessItemHeight\<close>,
  a placeholder adds its own height.
\<close>

definition passedPageHeight :: "'a engine \<Rightarrow> nat \<Rightarrow> real" where
  "passedPageHeight E pageIdx =
     (let pageLength = length (segmentList E ! pageIdx)
      in case renderList E ! pageIdx of
           Rendered _ \<Rightarrow>
             (case subPageMap E pageIdx of
                None \<Rightarrow> real pageLength * guessItemHeight E
              | Some pageData \<Rightarrow> js_or (sub_height pageData) (real pageLength * guessItemHeight E))
         | Placeholder h \<Rightarrow> h)"

text \<open>
  The branch for the page that holds the target, at in-page position \<^verbatim>\<open>pos\<close>: the item
  height, the offset added to \<^verbatim>\<open>scrollTop\<close>, and the \<^verbatim>\<open>rendered\<close> flag.  The sum over
  \<^verbatim>\<open>items.slice(0, pos)\<close> is the \<^verbatim>\<open>reduce\<close> of the source, a left fold from 0.
\<close>

definition targetPage :: "'a engine \<Rightarrow> nat \<Rightarrow> nat \<Rightarrow> real \<times> real \<times> bool" where
  "targetPage E pageIdx pos =
     (case renderList E ! pageIdx of
        Rendered _ \<Rightarrow>
          (case subPageMap E pageIdx of
             Some pageData \<Rightarrow>
               if length (sub_items pageData) > pos
               then (js_or (sub_items pageData ! pos) (guessItemHeight E),
                     foldl (\<lambda>sum itemHeight. sum + itemHeight) 0 (take pos (sub_items pageData)),
                     True)
               else (guessItemHeight E, guessItemHeight E * real pos, True)
           | None \<Rightarrow> (guessItemHeight E, guessItemHeight E * real pos, True))
      | Placeholder _ \<Rightarrow> (guessItemHeight E, guessItemHeight E * real pos, False))"

text \<open>
  The \<^verbatim>\<open>for\<close> loop over \<^verbatim>\<open>pageIdx\<close>, carrying \<^verbatim>\<open>scrollTop\<close>, \<^verbatim>\<open>segIdx\<close> and \<^verbatim>\<open>curIdx\<close>.
  It stops at the end of the render list, at a page index without segment data
  (\<^verbatim>\<open>if (!segmentData) break\<close>), or at the page that holds the target.  The result is
  \<^verbatim>\<open>(height, scrollTop, rendered, segIdx)\<close>.
\<close>

function getItemScrollTop_loop ::
  "'a engine \<Rightarrow> int \<Rightarrow> nat \<Rightarrow> real \<Rightarrow> nat \<Rightarrow> int \<Rightarrow> real \<times> real \<times> bool \<times> nat" where
  "getItemScrollTop_loop E index pageIdx scrollTop' segIdx curIdx =
     (if pageIdx < length (renderList E) then
        if \<not> pageIdx < length (segmentList E) then (0, scrollTop', False, segIdx)
        else
          let pageLength = int (length (segmentList E ! pageIdx))
          in if curIdx + pageLength - 1 < index
             then getItemScrollTop_loop E index (pageIdx + 1)
                    (scrollTop' + passedPageHeight E pageIdx) (segIdx + 1) (curIdx + pageLength)
             else
               (case targetPage E pageIdx (nat (index - curIdx)) of
                  (h, off, r) \<Rightarrow> (h, scrollTop' + off, r, segIdx))
      else (0, scrollTop', False, segIdx))"
  by pat_completeness auto
termination
  by (relation "measure (\<lambda>(E, index, pageIdx, scrollTop', segIdx, curIdx).
                  length (renderList E) - pageIdx)") auto

declare getItemScrollTop_loop.simps [simp del]

definition getItemScrollTop :: "'a engine \<Rightarrow> int \<Rightarrow> IItemScrollTop" where
  "getItemScrollTop E index =
     (if index < 0 then \<lparr>height = 0, scrollTop = 0, rendered = False, pageIndex = 0\<rparr>
      else
        case getItemScrollTop_loop E index 0 (headerHeight E) 0 0 of
          (h, st, r, segIdx) \<Rightarrow>
            \<lparr>height = h, scrollTop = st, rendered = r,
             pageIndex = min (int segIdx) (int (length (renderList E)) - 1)\<rparr>)"

text \<open>
  Notions used to state properties of the location arithmetic.  \<open>segStart segs p\<close> is
  the index of the first item of page \<open>p\<close>: the number of items in the pages before it.
  An index \<open>i\<close> lies in page \<open>p\<close> when
  \<open>segStart segs p \<le> i < segStart segs p + length (segs ! p)\<close>.
\<close>

definition segStart :: "'a list list \<Rightarrow> nat \<Rightarrow> nat" where
  "segStart segs p = sum_list (map length (take p segs))"

text \<open>
  \<open>usesMeasuredItems E p pos\<close>: for position \<open>pos\<close> of page \<open>p\<close> the target branch takes
  the measured item heights, that is, the page is rendered and its record holds more than
  \<open>pos\<close> item heights.  \<open>itemAdvance E p pos\<close> is the height the location arithmetic
  takes for the item at that position: its measured height where the record holds one,
  the guess otherwise.
\<close>

definition usesMeasuredItems :: "'a engine \<Rightarrow> nat \<Rightarrow> nat \<Rightarrow> bool" where
  "usesMeasuredItems E p pos =
     (case renderList E ! p of
        Rendered _ \<Rightarrow>
          (case subPageMap E p of
             Some pageData \<Rightarrow> pos < length (sub_items pageData)
           | None \<Rightarrow> False)
      | Placeholder _ \<Rightarrow> False)"

definition itemAdvance :: "'a engine \<Rightarrow> nat \<Rightarrow> nat \<Rightarrow> real" where
  "itemAdvance E p pos =
     (case renderList E ! p of
        Rendered _ \<Rightarrow>
          (case subPageMap E p of
             Some pageData \<Rightarrow>
               if pos < length (sub_items pageData) then sub_items pageData ! pos
               else guessItemHeight E
           | None \<Rightarrow> guessItemHeight E)
      | Placeholder _ \<Rightarrow> guessItemHeight E)"

section \<open>Measuring a page: initHeight\<close>

text \<open>
  The answer of the geometry query \<^verbatim>\<open>getPageInfo\<close>: the page height and the heights of
  the item elements found inside the page (none when the page is a placeholder or not yet
  laid out).
\<close>

record PageInfo =
  info_page_height :: real
  info_item_heights :: "real list"

text \<open>\<^verbatim>\<open>segmentListRef.current[index]?.length || 0\<close>\<close>

definition segmentLength :: "'a engine \<Rightarrow> nat \<Rightarrow> nat" where
  "segmentLength E index =
     (if index < length (segmentList E) then length (segmentList E ! index) else 0)"

text \<open>The record \<^verbatim>\<open>pageData\<close> that \<^verbatim>\<open>initHeight\<close> builds from the query answer.\<close>

definition pageRecord :: "'a engine \<Rightarrow> nat \<Rightarrow> PageInfo \<Rightarrow> ISubPage" where
  "pageRecord E index pageInfo =
     \<lparr>sub_rendered = (info_item_heights pageInfo \<noteq> []),
      sub_height = js_or (info_page_height pageInfo)
                         (real (segmentLength E index) * guessItemHeight E),
      sub_length = segmentLength E index,
      sub_items = info_item_heights pageInfo\<rparr>"

text \<open>
  \<^verbatim>\<open>initHeight(index, update)\<close> after its query has answered: the record is stored, and with
  \<^verbatim>\<open>update\<close> a placeholder at \<^verbatim>\<open>index\<close> whose height differs takes the new height.
\<close>

definition initHeight :: "'a engine \<Rightarrow> nat \<Rightarrow> PageInfo \<Rightarrow> bool \<Rightarrow> 'a engine" where
  "initHeight E index pageInfo update =
     (let pageData = pageRecord E index pageInfo;
          E' = E\<lparr>subPageMap := (subPageMap E)(index \<mapsto> pageData)\<rparr>
      in if update \<and> index < length (renderList E) then
           (case renderList E ! index of
              Placeholder h \<Rightarrow>
                if h \<noteq> sub_height pageData
                then E'\<lparr>renderList := (renderList E)[index := Placeholder (sub_height pageData)]\<rparr>
                else E'
            | Rendered _ \<Rightarrow> E')
         else E')"

section \<open>Initialising the render list\<close>

text \<open>
  The list built by \<^verbatim>\<open>initRenderList\<close>: the first page is rendered, every other page is a
  placeholder of \<^verbatim>\<open>length * guessItemHeight\<close>.
\<close>

definition newRenderList :: "'a list list \<Rightarrow> real \<Rightarrow> 'a VirtualListSegment list" where
  "newRenderList segs guess =
     map (\<lambda>i. if i = 0 then Rendered (segs ! i)
              else Placeholder (real (length (segs ! i)) * guess))
         [0..<length segs]"

text \<open>
  The synchronous block of \<^verbatim>\<open>initRenderList\<close> once the header height \<^verbatim>\<open>hh\<close> has been
  queried: \<^verbatim>\<open>clearObservers\<close> empties the page records, \<^verbatim>\<open>createSegmentList\<close> cuts the
  list, and the new render list is set.  (\<^verbatim>\<open>isCompleted\<close> is false until the page
  heights have been initialised.)
\<close>

definition initRenderList ::
  "'a engine \<Rightarrow> real \<Rightarrow> SegmentNumType \<Rightarrow> ('a list \<Rightarrow> int \<Rightarrow> 'a list list) \<Rightarrow> 'a list \<Rightarrow> 'a engine" where
  "initRenderList E hh segmentNum getSegmentNum list =
     (let segs = createSegmentList segmentNum getSegmentNum list
      in E\<lparr>renderList := newRenderList segs (guessItemHeight E),
           segmentList := segs,
           subPageMap := Map.empty,
           headerHeight := hh,
           isCompleted := False\<rparr>)"

section \<open>The overlap callback of a page watcher\<close>

text \<open>
  What the callback reads from the platform's answer: \<^verbatim>\<open>intersectionRatio\<close> and the
  height and width of \<^verbatim>\<open>intersectionRect\<close> (0 where absent).
\<close>

record IntersectionResult =
  intersectionRatio :: real
  rect_height :: real
  rect_width :: real

definition INTERSECTION_THRESHOLD :: real where
  "INTERSECTION_THRESHOLD = 1 / 1000"

text \<open>
  Leaving the viewport: a rendered page at \<^verbatim>\<open>index\<close> becomes a placeholder of height
  \<^verbatim>\<open>subPageMap.get(index)?.height || guessItemHeight * (segmentList[index]?.length || 0)\<close>;
  anything else leaves the list as it is.
\<close>

definition currentHeight :: "'a engine \<Rightarrow> nat \<Rightarrow> real" where
  "currentHeight E index =
     (case subPageMap E index of
        None \<Rightarrow> guessItemHeight E * real (segmentLength E index)
      | Some pageData \<Rightarrow>
          js_or (sub_height pageData) (guessItemHeight E * real (segmentLength E index)))"

definition replaceWithPlaceholder :: "'a engine \<Rightarrow> nat \<Rightarrow> 'a engine" where
  "replaceWithPlaceholder E index =
     (if index < length (renderList E) then
        (case renderList E ! index of
           Rendered _ \<Rightarrow>
             E\<lparr>renderList := (renderList E)[index := Placeholder (currentHeight E index)]\<rparr>
         | Placeholder _ \<Rightarrow> E)
      else E)"

text \<open>
  Entering the viewport: a placeholder at \<^verbatim>\<open>index\<close> becomes
  \<^verbatim>\<open>segmentList[index] || []\<close>.  The callback exists for indices below the length of the
  segment list only.  A write beyond the end of the render list would leave holes in the
  JavaScript array, which the list type here does not have: that case is \<open>None\<close>.
\<close>

definition renderActualContent :: "'a engine \<Rightarrow> nat \<Rightarrow> 'a engine option" where
  "renderActualContent E index =
     (if index < length (renderList E) then
        (case renderList E ! index of
           Placeholder _ \<Rightarrow>
             Some (E\<lparr>renderList := (renderList E)
                      [index := Rendered (if index < length (segmentList E)
                                          then segmentList E ! index else [])]\<rparr>)
         | Rendered _ \<Rightarrow> Some E)
      else None)"

text \<open>
  The callback itself: a signal without overlap, or with a ratio at or below the
  threshold, replaces the page by its placeholder; a ratio above the threshold renders
  it.  The measurement \<^verbatim>\<open>initHeight(index, true)\<close> and the installation of watchers for
  the adjacent pages that follow an entering signal run in later turns and are not part of
  this function.
\<close>

definition observerCallback :: "'a engine \<Rightarrow> nat \<Rightarrow> IntersectionResult \<Rightarrow> 'a engine option" where
  "observerCallback E index res =
     (let isIntersecting = (rect_height res \<noteq> 0 \<and> rect_width res \<noteq> 0)
      in if \<not> isIntersecting \<or> intersectionRatio res \<le> INTERSECTION_THRESHOLD
         then Some (replaceWithPlaceholder E index)
         else if intersectionRatio res > INTERSECTION_THRESHOLD
         then renderActualContent E index
         else Some E)"

section \<open>Navigation: scrollTo and scrollIntoView\<close>

text \<open>
  A call that settles either resolves to a value or rejects (throws); a rejection is the
  left summand.  A promise that is awaited may also never settle: the platform does not
  call back.
\<close>

datatype error = Rejected

datatype 'v awaited = Settled "error + 'v" | NeverSettles

text \<open>
  \<^verbatim>\<open>QueryUtils.checkElementExists\<close>: the selector query answers with a rectangle (width,
  height) or with nothing, or it does not answer within 5 seconds and the timer resolves
  the promise with false, or creating the query throws.
\<close>

datatype queryOutcome = Responded "(real \<times> real) option" | TimedOut | QueryThrew

definition checkElementExists :: "queryOutcome \<Rightarrow> error + bool" where
  "checkElementExists q =
     (case q of
        Responded None \<Rightarrow> Inr False
      | Responded (Some (w, h)) \<Rightarrow> Inr (w > 0 \<or> h > 0)
      | TimedOut \<Rightarrow> Inr False
      | QueryThrew \<Rightarrow> Inl Rejected)"

record ScrollInfo =
  view_height :: real
  view_scrollHeight :: real
  view_scrollTop :: real

text \<open>
  The node of the scroll container: it may lack a \<^verbatim>\<open>scrollTo\<close> method, and a call of
  the method may throw.
\<close>

datatype ScrollViewContext = NodeWithScrollTo bool | NodeWithoutScrollTo

text \<open>
  The answers of the collaborators to the calls one navigation makes, in call order:
  the scroll-view query of \<^verbatim>\<open>scrollIntoView\<close>; then in \<^verbatim>\<open>scrollTo\<close> the first presence
  probe, the first \<^verbatim>\<open>scrollToElement\<close>, the scroll-view query, the node query, the second
  presence probe and the second \<^verbatim>\<open>scrollToElement\<close>.  Of the query utilities only
  \<^verbatim>\<open>checkElementExists\<close> has a timer.  The promises of \<^verbatim>\<open>getScrollViewInfo\<close>,
  \<^verbatim>\<open>getScrollViewNode\<close> and \<^verbatim>\<open>scrollToElement\<close> settle only from the callback of the
  platform's query, so they never settle when the platform does not call back, and
  that of \<^verbatim>\<open>scrollToElement\<close> also when the node's \<^verbatim>\<open>scrollTo\<close> throws inside that
  callback; they reject when creating the query throws.
\<close>

record collaborators =
  intoViewInfo :: "ScrollInfo awaited"
  elementExists :: queryOutcome
  scrollSuccess :: "bool awaited"
  vlInfo :: "ScrollInfo awaited"
  scrollViewNode :: "ScrollViewContext option awaited"
  nowExists :: queryOutcome
  finalSuccess :: "bool awaited"

text \<open>
  The caller's callback \<^verbatim>\<open>onScrollToEnd\<close>, run through \<^verbatim>\<open>execIfFunction\<close>: it returns
  (an absent callback counts as returning) or it throws.
\<close>

datatype callback = CallbackReturns | CallbackThrows

text \<open>
  What a navigation does to the outside: a direct \<^verbatim>\<open>scrollTo({ top })\<close> on the node of
  the scroll container, a \<^verbatim>\<open>scrollToElement\<close> request for the item element
  \<^verbatim>\<open>#vl-item-<page>-<item>\<close> with an offset, and the call of \<^verbatim>\<open>onScrollToEnd\<close>.
\<close>

datatype effect =
    NodeScrollTo real
  | ScrollToElement nat int real
  | ScrollEndNotified

text \<open>
  \<^verbatim>\<open>execIfFunction(onScrollToEnd); return true\<close> inside a \<^verbatim>\<open>try\<close> block, after the
  effects issued so far: true when the callback returns, a throw otherwise.
\<close>

definition notifyAndReturnTrue :: "callback \<Rightarrow> effect list \<Rightarrow> bool awaited \<times> effect list" where
  "notifyAndReturnTrue onScrollToEnd effects =
     (case onScrollToEnd of
        CallbackReturns \<Rightarrow> (Settled (Inr True), effects @ [ScrollEndNotified])
      | CallbackThrows \<Rightarrow> (Settled (Inl Rejected), effects @ [ScrollEndNotified]))"

text \<open>
  The \<^verbatim>\<open>catch\<close> of \<^verbatim>\<open>scrollTo\<close> and of \<^verbatim>\<open>scrollIntoView\<close>: a throw or rejection inside
  the \<^verbatim>\<open>try\<close> block becomes the result false.  An awaited promise that never settles
  is not caught: the function stays suspended.
\<close>

definition catchReturnFalse :: "bool awaited \<times> effect list \<Rightarrow> bool awaited \<times> effect list" where
  "catchReturnFalse r =
     (case r of
        (Settled (Inl e), effects) \<Rightarrow> (Settled (Inr False), effects)
      | (Settled (Inr b), effects) \<Rightarrow> (Settled (Inr b), effects)
      | (NeverSettles, effects) \<Rightarrow> (NeverSettles, effects))"

text \<open>The search for the page of an index at the start of \<^verbatim>\<open>scrollTo\<close>.\<close>

fun findPage :: "'a list list \<Rightarrow> int \<Rightarrow> nat \<Rightarrow> int \<Rightarrow> nat \<times> int" where
  "findPage [] index i currentCount = (0, index)"
| "findPage (seg # rest) index i currentCount =
     (if currentCount + int (length seg) > index then (i, index - currentCount)
      else findPage rest index (i + 1) (currentCount + int (length seg)))"

text \<open>
  The page height used by the estimate of \<^verbatim>\<open>calculateEstimatedScrollTop\<close>:
  \<^verbatim>\<open>subPageMap.get(i)?.height || (segmentList[i]?.length || 0) * guessItemHeight\<close>.
\<close>

definition currentHeightEstimate :: "'a engine \<Rightarrow> nat \<Rightarrow> real" where
  "currentHeightEstimate E i =
     (case subPageMap E i of
        None \<Rightarrow> real (segmentLength E i) * guessItemHeight E
      | Some pageData \<Rightarrow>
          js_or (sub_height pageData) (real (segmentLength E i) * guessItemHeight E))"

definition calculateEstimatedScrollTop :: "'a engine \<Rightarrow> int \<Rightarrow> nat \<Rightarrow> int \<Rightarrow> real" where
  "calculateEstimatedScrollTop E index pageIdx itemIndexInPage =
     (let scrollInfo = getItemScrollTop E index
      in if rendered scrollInfo then scrollTop scrollInfo
         else
           foldl (\<lambda>estimatedTop i. estimatedTop + currentHeightEstimate E i) 0 [0..<pageIdx]
           + real_of_int itemIndexInPage * guessItemHeight E
           + headerHeight E)"

text \<open>
  The body of the \<^verbatim>\<open>try\<close> block of \<^verbatim>\<open>scrollTo\<close>, in its three parts, each with the
  effects issued so far.  First the branch for an element that is present: one
  \<^verbatim>\<open>scrollToElement\<close>, whose report decides the result.
\<close>

definition scrollTo_exact ::
  "collaborators \<Rightarrow> callback \<Rightarrow> nat \<Rightarrow> int \<Rightarrow> real \<Rightarrow> bool awaited \<times> effect list" where
  "scrollTo_exact env onScrollToEnd pageIdx itemIndexInPage offsetTop =
     (case scrollSuccess env of
        NeverSettles \<Rightarrow> (NeverSettles, [ScrollToElement pageIdx itemIndexInPage offsetTop])
      | Settled (Inl e) \<Rightarrow>
          (Settled (Inl e), [ScrollToElement pageIdx itemIndexInPage offsetTop])
      | Settled (Inr success) \<Rightarrow>
          if success
          then notifyAndReturnTrue onScrollToEnd
                 [ScrollToElement pageIdx itemIndexInPage offsetTop]
          else (Settled (Inr False), [ScrollToElement pageIdx itemIndexInPage offsetTop]))"

text \<open>
  After the jump to the estimate: the second presence probe; a present element is
  scrolled to exactly, an absent one ends the navigation with true.
\<close>

definition scrollTo_refine ::
  "collaborators \<Rightarrow> callback \<Rightarrow> nat \<Rightarrow> int \<Rightarrow> real \<Rightarrow> effect \<Rightarrow> bool awaited \<times> effect list" where
  "scrollTo_refine env onScrollToEnd pageIdx itemIndexInPage offsetTop jump =
     (case checkElementExists (nowExists env) of
        Inl e \<Rightarrow> (Settled (Inl e), [jump])
      | Inr nowExists' \<Rightarrow>
          if nowExists' then
            (case finalSuccess env of
               NeverSettles \<Rightarrow>
                 (NeverSettles, [jump, ScrollToElement pageIdx itemIndexInPage offsetTop])
             | Settled (Inl e) \<Rightarrow>
                 (Settled (Inl e), [jump, ScrollToElement pageIdx itemIndexInPage offsetTop])
             | Settled (Inr success) \<Rightarrow>
                 if success
                 then notifyAndReturnTrue onScrollToEnd
                        [jump, ScrollToElement pageIdx itemIndexInPage offsetTop]
                 else (Settled (Inr False),
                       [jump, ScrollToElement pageIdx itemIndexInPage offsetTop]))
          else notifyAndReturnTrue onScrollToEnd [jump])"

text \<open>
  The branch for an element that is absent: a non-negative estimate, the scroll-view
  query and the node query lead to the jump
  \<^verbatim>\<open>scrollTo({ top: Math.min(Math.max(estimatedScrollTop - offsetTop, 0), vlInfo.scrollHeight) })\<close>;
  a negative estimate, a missing node and a node without \<^verbatim>\<open>scrollTo\<close> fall through to
  \<^verbatim>\<open>return false\<close>.
\<close>

definition scrollTo_estimate ::
  "'a engine \<Rightarrow> collaborators \<Rightarrow> callback \<Rightarrow> int \<Rightarrow> nat \<Rightarrow> int \<Rightarrow> real
   \<Rightarrow> bool awaited \<times> effect list" where
  "scrollTo_estimate E env onScrollToEnd index pageIdx itemIndexInPage offsetTop =
     (let estimatedScrollTop = calculateEstimatedScrollTop E index pageIdx itemIndexInPage
      in if estimatedScrollTop \<ge> 0 then
           (case vlInfo env of
              NeverSettles \<Rightarrow> (NeverSettles, [])
            | Settled (Inl e) \<Rightarrow> (Settled (Inl e), [])
            | Settled (Inr info) \<Rightarrow>
                (case scrollViewNode env of
                   NeverSettles \<Rightarrow> (NeverSettles, [])
                 | Settled (Inl e) \<Rightarrow> (Settled (Inl e), [])
                 | Settled (Inr None) \<Rightarrow> (Settled (Inr False), [])
                 | Settled (Inr (Some NodeWithoutScrollTo)) \<Rightarrow> (Settled (Inr False), [])
                 | Settled (Inr (Some (NodeWithScrollTo throws))) \<Rightarrow>
                     let jump = NodeScrollTo
                           (min (max (estimatedScrollTop - offsetTop) 0) (view_scrollHeight info))
                     in if throws then (Settled (Inl Rejected), [jump])
                        else scrollTo_refine env onScrollToEnd pageIdx itemIndexInPage
                               offsetTop jump))
         else (Settled (Inr False), []))"

definition scrollTo_try ::
  "'a engine \<Rightarrow> collaborators \<Rightarrow> callback \<Rightarrow> int \<Rightarrow> real \<Rightarrow> bool awaited \<times> effect list" where
  "scrollTo_try E env onScrollToEnd index offsetTop =
     (case findPage (segmentList E) index 0 0 of (pageIdx, itemIndexInPage) \<Rightarrow>
      case checkElementExists (elementExists env) of
        Inl e \<Rightarrow> (Settled (Inl e), [])
      | Inr elementExists' \<Rightarrow>
          if elementExists'
          then scrollTo_exact env onScrollToEnd pageIdx itemIndexInPage offsetTop
          else scrollTo_estimate E env onScrollToEnd index pageIdx itemIndexInPage offsetTop)"

text \<open>
  \<^verbatim>\<open>scrollTo\<close>: false before initialisation is complete; otherwise the \<^verbatim>\<open>try\<close> block
  with its \<^verbatim>\<open>catch\<close>.
\<close>

definition scrollTo ::
  "'a engine \<Rightarrow> collaborators \<Rightarrow> callback \<Rightarrow> int \<Rightarrow> real \<Rightarrow> bool awaited \<times> effect list" where
  "scrollTo E env onScrollToEnd index offsetTop =
     (if \<not> isCompleted E then (Settled (Inr False), [])
      else catchReturnFalse (scrollTo_try E env onScrollToEnd index offsetTop))"



text \<open>
  Every awaited call of \<^verbatim>\<open>scrollTo\<close> other than the presence probes settles.
\<close>

definition awaitedCallsSettle :: "collaborators \<Rightarrow> bool" where
  "awaitedCallsSettle env =
     (scrollSuccess env \<noteq> NeverSettles \<and> vlInfo env \<noteq> NeverSettles
      \<and> scrollViewNode env \<noteq> NeverSettles \<and> finalSuccess env \<noteq> NeverSettles)"

section \<open>Installing page watchers: createIntersectionObserver\<close>

text \<open>
  The part of the hook that installs watchers: the keys of \<^verbatim>\<open>observersRef\<close> (active
  watchers), \<^verbatim>\<open>observerCreatingRef\<close> (installations in flight) and the length of the
  segment list.  \<^verbatim>\<open>createIntersectionObserver\<close> is asynchronous with one suspension point,
  the \<^verbatim>\<open>await\<close> of the presence probe; a retry is a timer.  The calls suspended at the
  probe and the timers not yet fired, each with its \<^verbatim>\<open>(index, retryCount)\<close>, are part of
  the state of the step relation.
\<close>

record watchers =
  observers :: "int set"
  observerCreating :: "int set"
  segmentCount :: nat
  awaiting :: "(int \<times> nat) list"
  retryTimers :: "(int \<times> nat) list"

text \<open>
  From the call to the \<^verbatim>\<open>await\<close>: nothing happens for an index that has a watcher or an
  installation in flight, or that is out of range; otherwise the index is marked as being
  created and the call suspends.
\<close>

definition createIntersectionObserver_call :: "watchers \<Rightarrow> int \<Rightarrow> nat \<Rightarrow> watchers" where
  "createIntersectionObserver_call W index retryCount =
     (if index \<in> observers W \<or> index \<in> observerCreating W then W
      else if index \<ge> int (segmentCount W) \<or> index < 0 then W
      else W\<lparr>observerCreating := insert index (observerCreating W),
             awaiting := awaiting W @ [(index, retryCount)]\<rparr>)"

text \<open>
  From the answer of the probe to the end of the call.  A rejected probe ends the call
  where it is.  An absent element removes the mark and, below three retries, sets a retry
  timer.  Otherwise the watcher is created inside \<^verbatim>\<open>try\<close>: on success the index enters
  \<^verbatim>\<open>observersRef\<close> and the mark is removed in the same turn; when creation throws only the
  mark is removed.
\<close>

definition createIntersectionObserver_resume ::
  "watchers \<Rightarrow> int \<Rightarrow> nat \<Rightarrow> error + bool \<Rightarrow> bool \<Rightarrow> watchers" where
  "createIntersectionObserver_resume W index retryCount probe createThrows =
     (case probe of
        Inl e \<Rightarrow> W
      | Inr elementExists' \<Rightarrow>
          if \<not> elementExists' \<and> retryCount < 3 then
            W\<lparr>observerCreating := observerCreating W - {index},
              retryTimers := retryTimers W @ [(index, retryCount + 1)]\<rparr>
          else if \<not> elementExists' then
            W\<lparr>observerCreating := observerCreating W - {index}\<rparr>
          else if createThrows then
            W\<lparr>observerCreating := observerCreating W - {index}\<rparr>
          else
            W\<lparr>observers := insert index (observers W),
              observerCreating := observerCreating W - {index}\<rparr>)"

text \<open>\<^verbatim>\<open>clearObservers\<close>: both sets are emptied (suspended calls and timers stay).\<close>

definition clearObservers :: "watchers \<Rightarrow> watchers" where
  "clearObservers W = W\<lparr>observers := {}, observerCreating := {}\<rparr>"

text \<open>
  The turns of the event loop that touch the two sets: an install request (from
  initialisation, the scroll handler or the prefetch of adjacent pages), the answer to
  the \<open>k\<close>-th suspended probe, the firing of the \<open>k\<close>-th retry timer,
  \<^verbatim>\<open>clearObservers\<close>, and a new segment list of some length.
\<close>

datatype event =
    InstallRequest int
  | ProbeAnswered nat "error + bool" bool
  | RetryTimerFired nat
  | ObserversCleared
  | SegmentListSet nat

definition remove_nth :: "nat \<Rightarrow> 'b list \<Rightarrow> 'b list" where
  "remove_nth k xs = take k xs @ drop (Suc k) xs"

definition step :: "watchers \<Rightarrow> event \<Rightarrow> watchers" where
  "step W ev =
     (case ev of
        InstallRequest index \<Rightarrow> createIntersectionObserver_call W index 0
      | ProbeAnswered k probe createThrows \<Rightarrow>
          if k < length (awaiting W) then
            (case awaiting W ! k of (index, retryCount) \<Rightarrow>
               createIntersectionObserver_resume
                 (W\<lparr>awaiting := remove_nth k (awaiting W)\<rparr>) index retryCount probe createThrows)
          else W
      | RetryTimerFired k \<Rightarrow>
          if k < length (retryTimers W) then
            (case retryTimers W ! k of (index, retryCount) \<Rightarrow>
               createIntersectionObserver_call
                 (W\<lparr>retryTimers := remove_nth k (retryTimers W)\<rparr>) index retryCount)
          else W
      | ObserversCleared \<Rightarrow> clearObservers W
      | SegmentListSet n \<Rightarrow> W\<lparr>segmentCount := n\<rparr>)"

definition initialWatchers :: watchers where
  "initialWatchers =
     \<lparr>observers = {}, observerCreating = {}, segmentCount = 0, awaiting = [], retryTimers = []\<rparr>"

inductive reachable :: "watchers \<Rightarrow> bool" where
  reachable_init: "reachable initialWatchers"
| reachable_step: "reachable W \<Longrightarrow> reachable (step W ev)"

section \<open>Concrete engine states\<close>

text \<open>
  Seven items in segments of three; the first page is rendered and measured at 60 per
  item, the other two are placeholders; the header is 30 high and the guess is 50.
\<close>

definition sampleEngine :: "nat engine" where
  "sampleEngine =
     \<lparr>renderList = [Rendered [1, 2, 3], Placeholder 150, Placeholder 50],
      segmentList = [[1, 2, 3], [4, 5, 6], [7]],
      subPageMap = [0 \<mapsto> \<lparr>sub_rendered = True, sub_height = 180, sub_length = 3,
                             sub_items = [60, 60, 60]\<rparr>],
      headerHeight = 30,
      guessItemHeight = 50,
      isCompleted = True\<rparr>"

text \<open>
  One rendered page of five items whose record holds the heights of the first three
  items only (100 each); no header, guess 50.
\<close>

definition partialEngine :: "nat engine" where
  "partialEngine =
     \<lparr>renderList = [Rendered [1, 2, 3, 4, 5]],
      segmentList = [[1, 2, 3, 4, 5]],
      subPageMap = [0 \<mapsto> \<lparr>sub_rendered = True, sub_height = 300, sub_length = 5,
                             sub_items = [100, 100, 100]\<rparr>],
      headerHeight = 0,
      guessItemHeight = 50,
      isCompleted = True\<rparr>"

text \<open>A collection of 10,000 items.\<close>

definition tenThousandItems :: "nat list" where
  "tenThousandItems = replicate 10000 0"

text \<open>
  Collaborator answers.  In \<open>visibleEnv\<close> the viewport is 600 high at offset 100 and no
  scroll could succeed.  In \<open>timeoutEnv\<close> both presence probes time out while the
  scroll-view query and the node answer normally.  In \<open>silentNodeEnv\<close> the presence
  probe finds no element and the node query is never answered.
\<close>

definition visibleEnv :: collaborators where
  "visibleEnv =
     \<lparr>intoViewInfo =
        Settled (Inr \<lparr>view_height = 600, view_scrollHeight = 400, view_scrollTop = 100\<rparr>),
      elementExists = Responded None,
      scrollSuccess = Settled (Inr False),
      vlInfo = Settled (Inl Rejected),
      scrollViewNode = Settled (Inr None),
      nowExists = Responded None,
      finalSuccess = Settled (Inr False)\<rparr>"

definition timeoutEnv :: collaborators where
  "timeoutEnv =
     \<lparr>intoViewInfo =
        Settled (Inr \<lparr>view_height = 600, view_scrollHeight = 400, view_scrollTop = 0\<rparr>),
      elementExists = TimedOut,
      scrollSuccess = Settled (Inr True),
      vlInfo = Settled (Inr \<lparr>view_height = 600, view_scrollHeight = 400, view_scrollTop = 0\<rparr>),
      scrollViewNode = Settled (Inr (Some (NodeWithScrollTo False))),
      nowExists = TimedOut,
      finalSuccess = Settled (Inr True)\<rparr>"

definition silentNodeEnv :: collaborators where
  "silentNodeEnv =
     \<lparr>intoViewInfo =
        Settled (Inr \<lparr>view_height = 600, view_scrollHeight = 400, view_scrollTop = 0\<rparr>),
      elementExists = Responded None,
      scrollSuccess = Settled (Inr True),
      vlInfo = Settled (Inr \<lparr>view_height = 600, view_scrollHeight = 400, view_scrollTop = 0\<rparr>),
      scrollViewNode = NeverSettles,
      nowExists = Responded None,
      finalSuccess = Settled (Inr True)\<rparr>"

text \<open>Overlap signals: one without overlap, one with half of the page in the region.\<close>

definition leaveSignal :: IntersectionResult where
  "leaveSignal = \<lparr>intersectionRatio = 0, rect_height = 0, rect_width = 0\<rparr>"

definition enterSignal :: IntersectionResult where
  "enterSignal = \<lparr>intersectionRatio = 1 / 2, rect_height = 90, rect_width = 300\<rparr>"

text \<open>
  A run of the watcher installation over three pages: pages 1 and 2 are requested, and
  the probe of page 1 answers that its element is present.
\<close>

definition sampleWatchers :: watchers where
  "sampleWatchers =
     foldl step initialWatchers
       [SegmentListSet 3, InstallRequest 1, InstallRequest 2, ProbeAnswered 0 (Inr True) False]"

section \<open>Properties of the segmenter\<close>

lemma slice_js_step:
  "slice_js (i * n) (min (i * n + n) (length xs)) xs = take n (drop (i * n) xs)"
proof -
  have "min (i * n + n) (length xs) - i * n = min n (length xs - i * n)"
    by arith
  then show ?thesis
    by (simp add: slice_js_def min_def)
qed

lemma concat_slices:
  "concat (map (\<lambda>i. take n (drop (i * n) xs)) [0..<m]) = take (m * n) xs"
proof (induction m)
  case 0
  then show ?case by simp
next
  case (Suc m)
  have "take (m * n) xs @ take n (drop (m * n) xs) = take (m * n + n) xs"
    by (simp add: take_add)
  with Suc show ?case
    by (simp add: add.commute)
qed

lemma totalPages_cover:
  assumes "0 < segmentNum"
  shows "length xs \<le> nat \<lceil>real (length xs) / real_of_int segmentNum\<rceil> * nat segmentNum"
proof -
  let ?c = "\<lceil>real (length xs) / real_of_int segmentNum\<rceil>"
  have pos: "0 < real_of_int segmentNum" using assms by simp
  have "0 \<le> real (length xs) / real_of_int segmentNum" using pos by simp
  then have c0: "0 \<le> ?c" by (simp add: ceiling_le_iff[symmetric] order.trans[OF _ le_of_int_ceiling])
  have "real (length xs) \<le> real_of_int ?c * real_of_int segmentNum"
    using ceiling_divide_upper[OF pos] .
  also have "\<dots> = real (nat ?c * nat segmentNum)"
    using c0 assms by simp
  finally have "real (length xs) \<le> real (nat ?c * nat segmentNum)" .
  then show ?thesis by (simp only: of_nat_le_iff)
qed

lemma getSegmentList_concat: "concat (getSegmentList xs segmentNum) = xs"
proof (cases "xs = [] \<or> segmentNum \<le> 0")
  case True
  then show ?thesis by (auto simp: getSegmentList_def)
next
  case False
  then have n: "0 < segmentNum" and ne: "xs \<noteq> []" by auto
  let ?m = "nat \<lceil>real (length xs) / real_of_int segmentNum\<rceil>"
  have "concat (getSegmentList xs segmentNum)
        = concat (map (\<lambda>i. take (nat segmentNum) (drop (i * nat segmentNum) xs)) [0..<?m])"
    using n ne by (simp add: getSegmentList_def Let_def slice_js_step)
  also have "\<dots> = take (?m * nat segmentNum) xs"
    by (rule concat_slices)
  also have "\<dots> = xs"
    using totalPages_cover[OF n, of xs] by simp
  finally show ?thesis .
qed

text \<open>
  C1. For every non-empty list and every segment size of at least 1, concatenating the
  segments of \<^verbatim>\<open>getSegmentList\<close> in order gives back the original list, element for
  element, and so the segment lengths add up to the original length.
\<close>

theorem getSegmentList_roundtrip:
  assumes "xs \<noteq> []" and "1 \<le> segmentNum"
  shows "concat (getSegmentList xs segmentNum) = xs
         \<and> sum_list (map length (getSegmentList xs segmentNum)) = length xs"
proof -
  have c: "concat (getSegmentList xs segmentNum) = xs"
    by (rule getSegmentList_concat)
  have "length (concat (getSegmentList xs segmentNum))
        = sum_list (map length (getSegmentList xs segmentNum))"
    by (simp add: length_concat)
  with c show ?thesis by simp
qed

theorem getSegmentList_roundtrip_witness:
  "[1, 2, 3, 4, 5, 6, 7 :: nat] \<noteq> [] \<and> (1::int) \<le> 3
   \<and> getSegmentList [1, 2, 3, 4, 5, 6, 7 :: nat] 3 = [[1, 2, 3], [4, 5, 6], [7]]
   \<and> concat (getSegmentList [1, 2, 3, 4, 5, 6, 7 :: nat] 3) = [1, 2, 3, 4, 5, 6, 7]
   \<and> sum_list (map length (getSegmentList [1, 2, 3, 4, 5, 6, 7 :: nat] 3)) = 7"
proof -
  have seg: "getSegmentList [1, 2, 3, 4, 5, 6, 7 :: nat] 3 = [[1, 2, 3], [4, 5, 6], [7]]"
    by (simp add: getSegmentList_def slice_js_def upt_rec)
  have "[1, 2, 3, 4, 5, 6, 7 :: nat] \<noteq> []" and "(1::int) \<le> 3" by simp_all
  from getSegmentList_roundtrip[OF this] seg show ?thesis by simp
qed

lemma totalPages_pos:
  assumes "0 < segmentNum" and "xs \<noteq> []"
  shows "0 < nat \<lceil>real (length xs) / real_of_int segmentNum\<rceil>"
proof -
  have "0 < real (length xs) / real_of_int segmentNum"
    using assms by simp
  then show ?thesis by simp
qed

lemma length_getSegmentList:
  "xs \<noteq> [] \<Longrightarrow> 0 < segmentNum \<Longrightarrow>
   length (getSegmentList xs segmentNum) = nat \<lceil>real (length xs) / real_of_int segmentNum\<rceil>"
  by (simp add: getSegmentList_def Let_def)

lemma nth_getSegmentList:
  assumes "xs \<noteq> []" and "0 < segmentNum"
    and "i < nat \<lceil>real (length xs) / real_of_int segmentNum\<rceil>"
  shows "getSegmentList xs segmentNum ! i = take (nat segmentNum) (drop (i * nat segmentNum) xs)"
  using assms by (simp add: getSegmentList_def Let_def slice_js_step)

lemma getSegmentList_first_nonempty:
  assumes "xs \<noteq> []"
  shows "getSegmentList xs segmentNum \<noteq> [] \<and> getSegmentList xs segmentNum ! 0 \<noteq> []"
proof (cases "segmentNum \<le> 0")
  case True
  with assms show ?thesis by (simp add: getSegmentList_def)
next
  case False
  then have n: "0 < segmentNum" by simp
  have m: "0 < nat \<lceil>real (length xs) / real_of_int segmentNum\<rceil>"
    using totalPages_pos[OF n assms] .
  have "length (getSegmentList xs segmentNum) \<noteq> 0"
    using m length_getSegmentList[OF assms n] by simp
  moreover have "getSegmentList xs segmentNum ! 0 \<noteq> []"
    using nth_getSegmentList[OF assms n m] assms n by simp
  ultimately show ?thesis by simp
qed

section \<open>Properties of getItemScrollTop\<close>

lemma segStart_0: "segStart segs 0 = 0"
  by (simp add: segStart_def)

lemma segStart_Suc:
  "q < length segs \<Longrightarrow> segStart segs (Suc q) = segStart segs q + length (segs ! q)"
  by (simp add: segStart_def take_Suc_conv_app_nth)

lemma segStart_mono:
  "q \<le> p \<Longrightarrow> p \<le> length segs \<Longrightarrow> segStart segs q \<le> segStart segs p"
proof (induction p)
  case 0
  then show ?case by simp
next
  case (Suc p)
  show ?case
  proof (cases "q = Suc p")
    case True
    then show ?thesis by simp
  next
    case False
    with Suc.prems have "q \<le> p" "p < length segs" by simp_all
    with Suc.IH have "segStart segs q \<le> segStart segs p" by simp
    with \<open>p < length segs\<close> show ?thesis by (simp add: segStart_Suc)
  qed
qed

lemma loop_reaches_target:
  assumes "p < length (renderList E)" and "p < length (segmentList E)"
    and "int (segStart (segmentList E) p) \<le> index"
    and "index < int (segStart (segmentList E) p + length (segmentList E ! p))"
    and "q \<le> p"
  shows "getItemScrollTop_loop E index q acc seg (int (segStart (segmentList E) q))
         = (case targetPage E p (nat (index - int (segStart (segmentList E) p))) of
              (h, off, r) \<Rightarrow>
                (h, acc + (\<Sum>k = q..<p. passedPageHeight E k) + off, r, seg + (p - q)))"
  using assms(5)
proof (induction "p - q" arbitrary: q acc seg)
  case 0
  then have "q = p" by simp
  then show ?case
    using assms(1-4)
    by (subst getItemScrollTop_loop.simps) (simp add: Let_def split: prod.splits)
next
  case (Suc d)
  then have qp: "q < p" by simp
  then have ql: "q < length (renderList E)" "q < length (segmentList E)"
    using assms(1,2) by simp_all
  have "segStart (segmentList E) (Suc q) \<le> segStart (segmentList E) p"
    using qp assms(2) by (intro segStart_mono) simp_all
  then have pass: "int (segStart (segmentList E) q) + int (length (segmentList E ! q)) - 1 < index"
    using assms(3) ql by (simp add: segStart_Suc)
  have next_cur: "int (segStart (segmentList E) q) + int (length (segmentList E ! q))
                  = int (segStart (segmentList E) (Suc q))"
    using ql by (simp add: segStart_Suc)
  have IH: "getItemScrollTop_loop E index (Suc q) (acc + passedPageHeight E q) (seg + 1)
              (int (segStart (segmentList E) (Suc q)))
            = (case targetPage E p (nat (index - int (segStart (segmentList E) p))) of
                 (h, off, r) \<Rightarrow>
                   (h, (acc + passedPageHeight E q) + (\<Sum>k = Suc q..<p. passedPageHeight E k) + off,
                    r, (seg + 1) + (p - Suc q)))"
    using Suc.hyps(2) qp by (intro Suc.hyps(1)) simp_all
  have split_sum: "(\<Sum>k = q..<p. passedPageHeight E k)
                   = passedPageHeight E q + (\<Sum>k = Suc q..<p. passedPageHeight E k)"
    using qp by (simp add: sum.atLeast_Suc_lessThan)
  have unfold: "getItemScrollTop_loop E index q acc seg (int (segStart (segmentList E) q))
        = getItemScrollTop_loop E index (Suc q) (acc + passedPageHeight E q) (seg + 1)
            (int (segStart (segmentList E) (Suc q)))"
    using ql pass
    by (subst getItemScrollTop_loop.simps) (simp add: Let_def next_cur)
  have cnt: "seg + 1 + (p - Suc q) = seg + (p - q)"
    using qp by simp
  show ?case
    unfolding unfold IH split_sum cnt
    by (simp add: add.assoc)
qed

lemma getItemScrollTop_in_segment:
  assumes "p < length (renderList E)" and "p < length (segmentList E)"
    and "int (segStart (segmentList E) p) \<le> index"
    and "index < int (segStart (segmentList E) p + length (segmentList E ! p))"
  shows "getItemScrollTop E index
         = (case targetPage E p (nat (index - int (segStart (segmentList E) p))) of
              (h, off, r) \<Rightarrow>
                \<lparr>height = h,
                 scrollTop = headerHeight E + (\<Sum>k = 0..<p. passedPageHeight E k) + off,
                 rendered = r, pageIndex = int p\<rparr>)"
proof -
  have "0 \<le> index" using assms(3) by simp
  moreover have "min (int p) (int (length (renderList E)) - 1) = int p"
    using assms(1) by simp
  ultimately show ?thesis
    using loop_reaches_target[OF assms, of 0 "headerHeight E" 0]
    by (simp add: getItemScrollTop_def segStart_0 split: prod.splits)
qed

lemma foldl_add_sum_list: "foldl (\<lambda>sum itemHeight. sum + itemHeight) a xs = a + sum_list (xs :: real list)"
  by (induction xs arbitrary: a) simp_all

lemma sum_list_take_nth:
  "n \<le> length xs \<Longrightarrow> sum_list (take n xs) = (\<Sum>k = 0..<n. (xs :: real list) ! k)"
proof (induction n)
  case 0
  then show ?case by simp
next
  case (Suc n)
  then show ?case by (simp add: take_Suc_conv_app_nth)
qed

lemma targetPage_offset_diff:
  assumes "a \<le> b"
    and "usesMeasuredItems E p a \<longrightarrow> usesMeasuredItems E p b"
  shows "fst (snd (targetPage E p b)) - fst (snd (targetPage E p a))
         = (\<Sum>k = a..<b. itemAdvance E p k)"
proof (cases "usesMeasuredItems E p b")
  case True
  then obtain xs pd where r: "renderList E ! p = Rendered xs" and m: "subPageMap E p = Some pd"
    and lb: "b < length (sub_items pd)"
    by (auto simp: usesMeasuredItems_def split: VirtualListSegment.splits option.splits)
  have la: "a < length (sub_items pd)" using lb assms(1) by simp
  have adv: "\<And>k. k < b \<Longrightarrow> itemAdvance E p k = sub_items pd ! k"
    using r m lb by (simp add: itemAdvance_def)
  have "fst (snd (targetPage E p b)) - fst (snd (targetPage E p a))
        = (\<Sum>k = 0..<b. sub_items pd ! k) - (\<Sum>k = 0..<a. sub_items pd ! k)"
    using r m la lb by (simp add: targetPage_def foldl_add_sum_list sum_list_take_nth)
  also have "\<dots> = (\<Sum>k = a..<b. sub_items pd ! k)"
    using sum.atLeastLessThan_concat[of 0 a b "\<lambda>k. sub_items pd ! k"] assms(1) by simp
  also have "\<dots> = (\<Sum>k = a..<b. itemAdvance E p k)"
    by (rule sum.cong) (simp_all add: adv)
  finally show ?thesis .
next
  case False
  with assms(2) have na: "\<not> usesMeasuredItems E p a" by blast
  have adv: "\<And>k. a \<le> k \<Longrightarrow> itemAdvance E p k = guessItemHeight E"
    using na by (auto simp: itemAdvance_def usesMeasuredItems_def
        split: VirtualListSegment.splits option.splits)
  have offs: "fst (snd (targetPage E p b)) = guessItemHeight E * real b"
       "fst (snd (targetPage E p a)) = guessItemHeight E * real a"
    using na False by (auto simp: targetPage_def usesMeasuredItems_def
        split: VirtualListSegment.splits option.splits)
  have "(\<Sum>k = a..<b. itemAdvance E p k) = (\<Sum>k = a..<b. guessItemHeight E)"
    by (rule sum.cong) (simp_all add: adv)
  also have "\<dots> = guessItemHeight E * real b - guessItemHeight E * real a"
    using assms(1) by (simp add: algebra_simps of_nat_diff)
  finally show ?thesis using offs by simp
qed

lemma scrollTop_in_segment:
  assumes "p < length (renderList E)" and "p < length (segmentList E)"
    and "int (segStart (segmentList E) p) \<le> index"
    and "index < int (segStart (segmentList E) p + length (segmentList E ! p))"
  shows "scrollTop (getItemScrollTop E index)
         = headerHeight E + (\<Sum>k = 0..<p. passedPageHeight E k)
           + fst (snd (targetPage E p (nat (index - int (segStart (segmentList E) p)))))"
  by (simp add: getItemScrollTop_in_segment[OF assms] split: prod.splits)

lemma itemAdvance_nonneg:
  assumes "0 \<le> guessItemHeight E"
    and "\<And>pd h. subPageMap E p = Some pd \<Longrightarrow> h \<in> set (sub_items pd) \<Longrightarrow> 0 \<le> h"
  shows "0 \<le> itemAdvance E p k"
  using assms by (auto simp: itemAdvance_def split: VirtualListSegment.splits option.splits)

lemma sampleEngine_scrollTops:
  "scrollTop (getItemScrollTop sampleEngine 0) = 30
   \<and> scrollTop (getItemScrollTop sampleEngine 2) = 150"
  by (simp add: getItemScrollTop_def getItemScrollTop_loop.simps sampleEngine_def
      targetPage_def passedPageHeight_def js_or_def)

text \<open>
  C2 (as amended).  Take an engine state in which the guess and the recorded item heights
  of a page \<open>p\<close> are not negative and the render list reaches \<open>p\<close>, and indices
  \<open>i < j\<close> of page \<open>p\<close> such that the measured item heights are used for \<open>j\<close> whenever
  they are used for \<open>i\<close>.  Then the scrollTop located for \<open>j\<close> is at least the one located
  for \<open>i\<close>, and it is strictly greater if some item \<open>k\<close> with \<open>i \<le> k < j\<close> advances the
  offset by a nonzero height (its measured height where the record holds one, the guess
  otherwise).
\<close>

theorem getItemScrollTop_monotone:
  assumes "p < length (renderList E)" and "p < length (segmentList E)"
    and "int (segStart (segmentList E) p) \<le> i" and "i < j"
    and "j < int (segStart (segmentList E) p + length (segmentList E ! p))"
    and "0 \<le> guessItemHeight E"
    and "\<forall>pd. subPageMap E p = Some pd \<longrightarrow> (\<forall>h \<in> set (sub_items pd). 0 \<le> h)"
    and "usesMeasuredItems E p (nat (i - int (segStart (segmentList E) p)))
         \<longrightarrow> usesMeasuredItems E p (nat (j - int (segStart (segmentList E) p)))"
  shows "scrollTop (getItemScrollTop E i) \<le> scrollTop (getItemScrollTop E j)
         \<and> ((\<exists>k. i \<le> k \<and> k < j
                 \<and> itemAdvance E p (nat (k - int (segStart (segmentList E) p))) \<noteq> 0)
              \<longrightarrow> scrollTop (getItemScrollTop E i) < scrollTop (getItemScrollTop E j))"
proof -
  let ?s = "int (segStart (segmentList E) p)"
  let ?a = "nat (i - ?s)" and ?b = "nat (j - ?s)"
  have ab: "?a \<le> ?b" using assms(3,4) by simp
  have si: "scrollTop (getItemScrollTop E i)
            = headerHeight E + (\<Sum>k = 0..<p. passedPageHeight E k) + fst (snd (targetPage E p ?a))"
    using assms(1-5) by (intro scrollTop_in_segment) simp_all
  have sj: "scrollTop (getItemScrollTop E j)
            = headerHeight E + (\<Sum>k = 0..<p. passedPageHeight E k) + fst (snd (targetPage E p ?b))"
    using assms(1-5) by (intro scrollTop_in_segment) simp_all
  have diff: "scrollTop (getItemScrollTop E j) - scrollTop (getItemScrollTop E i)
              = (\<Sum>k = ?a..<?b. itemAdvance E p k)"
    using targetPage_offset_diff[OF ab assms(8)] si sj by simp
  have nonneg: "\<And>k. 0 \<le> itemAdvance E p k"
    using assms(6,7) by (intro itemAdvance_nonneg) auto
  have le: "scrollTop (getItemScrollTop E i) \<le> scrollTop (getItemScrollTop E j)"
    using diff sum_nonneg[of "{?a..<?b}" "itemAdvance E p"] nonneg by simp
  have strict: "scrollTop (getItemScrollTop E i) < scrollTop (getItemScrollTop E j)"
    if "\<exists>k. i \<le> k \<and> k < j \<and> itemAdvance E p (nat (k - ?s)) \<noteq> 0"
  proof -
    from that obtain k where k: "i \<le> k" "k < j" "itemAdvance E p (nat (k - ?s)) \<noteq> 0"
      by blast
    let ?c = "nat (k - ?s)"
    have mem: "?c \<in> {?a..<?b}" using k assms(3) by auto
    have "0 < itemAdvance E p ?c" using nonneg[of ?c] k(3) by simp
    then have "0 < (\<Sum>k = ?a..<?b. itemAdvance E p k)"
      using mem nonneg by (intro sum_pos2[of _ ?c]) simp_all
    with diff show ?thesis by simp
  qed
  from le strict show ?thesis by blast
qed

theorem getItemScrollTop_monotone_witness:
  "scrollTop (getItemScrollTop sampleEngine 0) = 30
   \<and> scrollTop (getItemScrollTop sampleEngine 2) = 150
   \<and> usesMeasuredItems sampleEngine 0 2
   \<and> itemAdvance sampleEngine 0 0 = 60
   \<and> scrollTop (getItemScrollTop sampleEngine 0) \<le> scrollTop (getItemScrollTop sampleEngine 2)
   \<and> scrollTop (getItemScrollTop sampleEngine 0) < scrollTop (getItemScrollTop sampleEngine 2)"
proof -
  have s0: "segStart (segmentList sampleEngine) 0 = 0" by (simp add: segStart_def)
  have h1: "0 < length (renderList sampleEngine)" and h2: "0 < length (segmentList sampleEngine)"
    by (simp_all add: sampleEngine_def)
  have h3: "int (segStart (segmentList sampleEngine) 0) \<le> 0" by (simp add: s0)
  have h4: "(0::int) < 2" by simp
  have h5: "2 < int (segStart (segmentList sampleEngine) 0 + length (segmentList sampleEngine ! 0))"
    by (simp add: s0) (simp add: sampleEngine_def)
  have h6: "0 \<le> guessItemHeight sampleEngine" by (simp add: sampleEngine_def)
  have h7: "\<forall>pd. subPageMap sampleEngine 0 = Some pd \<longrightarrow> (\<forall>h \<in> set (sub_items pd). 0 \<le> h)"
    by (auto simp: sampleEngine_def)
  have m: "usesMeasuredItems sampleEngine 0 2"
    by (simp add: usesMeasuredItems_def sampleEngine_def)
  then have h8: "usesMeasuredItems sampleEngine 0 (nat (0 - int (segStart (segmentList sampleEngine) 0)))
                 \<longrightarrow> usesMeasuredItems sampleEngine 0 (nat (2 - int (segStart (segmentList sampleEngine) 0)))"
    by (simp add: s0)
  have adv: "itemAdvance sampleEngine 0 0 = 60"
    by (simp add: itemAdvance_def sampleEngine_def)
  then have ex: "\<exists>k. (0::int) \<le> k \<and> k < 2
                   \<and> itemAdvance sampleEngine 0 (nat (k - int (segStart (segmentList sampleEngine) 0))) \<noteq> 0"
    by (intro exI[of _ 0]) (simp add: s0)
  from getItemScrollTop_monotone[OF h1 h2 h3 h4 h5 h6 h7 h8] ex
  have "scrollTop (getItemScrollTop sampleEngine 0) \<le> scrollTop (getItemScrollTop sampleEngine 2)"
    and "scrollTop (getItemScrollTop sampleEngine 0) < scrollTop (getItemScrollTop sampleEngine 2)"
    by blast+
  with sampleEngine_scrollTops m adv show ?thesis by simp
qed

text \<open>
  C2 as stated fails: in \<open>partialEngine\<close> the items 2 and 3 lie in the same (only) page,
  whose record holds three item heights.  Item 2 is located by the measured heights, at
  100 + 100 = 200; item 3 has no measured height and is located by the guess, at
  3 * 50 = 150.
\<close>

theorem getItemScrollTop_monotone_counterexample:
  "(2::int) < 3
   \<and> int (segStart (segmentList partialEngine) 0) \<le> 2
   \<and> 3 < int (segStart (segmentList partialEngine) 0 + length (segmentList partialEngine ! 0))
   \<and> scrollTop (getItemScrollTop partialEngine 2) = 200
   \<and> scrollTop (getItemScrollTop partialEngine 3) = 150
   \<and> \<not> scrollTop (getItemScrollTop partialEngine 2) \<le> scrollTop (getItemScrollTop partialEngine 3)"
proof -
  have "segStart (segmentList partialEngine) 0 = 0" by (simp add: segStart_def)
  moreover have "length (segmentList partialEngine ! 0) = 5" by (simp add: partialEngine_def)
  moreover have "scrollTop (getItemScrollTop partialEngine 2) = 200"
    by (simp add: getItemScrollTop_def getItemScrollTop_loop.simps partialEngine_def
        targetPage_def passedPageHeight_def js_or_def)
  moreover have "scrollTop (getItemScrollTop partialEngine 3) = 150"
    by (simp add: getItemScrollTop_def getItemScrollTop_loop.simps partialEngine_def
        targetPage_def passedPageHeight_def js_or_def)
  ultimately show ?thesis by simp
qed

lemma getItemScrollTop_zero_general:
  assumes "segmentList E \<noteq> [] \<longrightarrow> segmentList E ! 0 \<noteq> []"
  shows "scrollTop (getItemScrollTop E 0) = headerHeight E"
proof (cases "0 < length (renderList E) \<and> 0 < length (segmentList E)")
  case False
  then show ?thesis
    by (auto simp: getItemScrollTop_def getItemScrollTop_loop.simps[of E 0 0])
next
  case True
  with assms have ne: "segmentList E ! 0 \<noteq> []" by auto
  then have len: "\<not> int (length (segmentList E ! 0)) - 1 < 0" by (cases "segmentList E ! 0") simp_all
  have off: "fst (snd (targetPage E 0 0)) = 0"
    by (simp add: targetPage_def split: VirtualListSegment.splits option.splits)
  obtain h a r where tp: "targetPage E 0 0 = (h, a, r)" by (cases "targetPage E 0 0") auto
  with off have "a = 0" by simp
  with True len tp show ?thesis
    by (simp add: getItemScrollTop_def getItemScrollTop_loop.simps[of E 0 0] Let_def)
qed

text \<open>
  C4. For every non-empty collection and every segmentation of it by the segmenter
  (any segment size, or \<^verbatim>\<open>'smart'\<close>), whatever the render list, the page records, the guess
  and the header are, \<^verbatim>\<open>getItemScrollTop(0)\<close> returns the header height as scrollTop: no
  page height and no item height is added.
\<close>

theorem getItemScrollTop_first_item:
  assumes "list \<noteq> []"
    and "segmentList E = createSegmentList segmentNum getSegmentList list"
  shows "scrollTop (getItemScrollTop E 0) = headerHeight E"
proof -
  have "segmentList E ! 0 \<noteq> []"
    using getSegmentList_first_nonempty[OF assms(1)] assms(2)
    by (simp add: createSegmentList_def)
  then show ?thesis by (intro getItemScrollTop_zero_general) simp
qed

theorem getItemScrollTop_first_item_witness:
  "[1, 2, 3, 4, 5, 6, 7 :: nat] \<noteq> []
   \<and> segmentList sampleEngine = createSegmentList (Num 3) getSegmentList [1, 2, 3, 4, 5, 6, 7]
   \<and> headerHeight sampleEngine = 30
   \<and> scrollTop (getItemScrollTop sampleEngine 0) = 30"
proof -
  have ne: "[1, 2, 3, 4, 5, 6, 7 :: nat] \<noteq> []" by simp
  have seg: "segmentList sampleEngine = createSegmentList (Num 3) getSegmentList [1, 2, 3, 4, 5, 6, 7]"
    by (simp add: sampleEngine_def createSegmentList_def resolveSegmentNum_def
        getSegmentList_def slice_js_def upt_rec)
  have hh: "headerHeight sampleEngine = 30" by (simp add: sampleEngine_def)
  from getItemScrollTop_first_item[OF ne seg] ne seg hh show ?thesis by simp
qed

text \<open>
  C10. For every negative index \<^verbatim>\<open>getItemScrollTop\<close> returns the fixed record with height 0,
  scrollTop 0, rendered false and pageIndex 0; the header height is not added.
\<close>

theorem getItemScrollTop_negative:
  assumes "index < 0"
  shows "getItemScrollTop E index
         = \<lparr>height = 0, scrollTop = 0, rendered = False, pageIndex = 0\<rparr>"
  using assms by (simp add: getItemScrollTop_def)

theorem getItemScrollTop_negative_witness:
  "(-1::int) < 0
   \<and> getItemScrollTop sampleEngine (-1)
       = \<lparr>height = 0, scrollTop = 0, rendered = False, pageIndex = 0\<rparr>
   \<and> headerHeight sampleEngine = 30"
proof -
  have "(-1::int) < 0" by simp
  from getItemScrollTop_negative[OF this, of sampleEngine] show ?thesis
    by (simp add: sampleEngine_def)
qed

section \<open>Smart segment size\<close>

lemma floor_sqrt_bounds:
  "0 \<le> \<lfloor>sqrt (real n)\<rfloor> \<and> \<lfloor>sqrt (real n)\<rfloor> * \<lfloor>sqrt (real n)\<rfloor> \<le> int n
   \<and> int n < (\<lfloor>sqrt (real n)\<rfloor> + 1) * (\<lfloor>sqrt (real n)\<rfloor> + 1)"
proof -
  let ?s = "sqrt (real n)" and ?k = "\<lfloor>sqrt (real n)\<rfloor>"
  have s0: "0 \<le> ?s" by simp
  then have k0: "0 \<le> ?k" by simp
  have kle: "real_of_int ?k \<le> ?s" by (rule of_int_floor_le)
  have slt: "?s < real_of_int (?k + 1)" using floor_correct[of ?s] by simp
  have ss: "?s * ?s = real_of_int (int n)" by simp
  have "real_of_int ?k * real_of_int ?k \<le> ?s * ?s"
    using kle k0 by (intro mult_mono) simp_all
  then have "real_of_int (?k * ?k) \<le> real_of_int (int n)"
    unfolding ss by (simp only: of_int_mult)
  then have lo: "?k * ?k \<le> int n" by (simp only: of_int_le_iff)
  have "?s * ?s < real_of_int (?k + 1) * real_of_int (?k + 1)"
    using slt s0 by (intro mult_strict_mono') simp_all
  then have "real_of_int (int n) < real_of_int ((?k + 1) * (?k + 1))"
    unfolding ss by (simp only: of_int_mult)
  then have hi: "int n < (?k + 1) * (?k + 1)" by (simp only: of_int_less_iff)
  from k0 lo hi show ?thesis by blast
qed

lemma floor_sqrt_unique:
  assumes "r * r \<le> n" and "n < (r + 1) * (r + 1)"
  shows "\<lfloor>sqrt (real n)\<rfloor> = int r"
proof -
  have "real (r * r) \<le> real n" using assms(1) by (simp only: of_nat_le_iff)
  then have "real r * real r \<le> real n" by (simp only: of_nat_mult)
  then have "sqrt (real r * real r) \<le> sqrt (real n)" by (simp only: real_sqrt_le_iff)
  then have lo: "real r \<le> sqrt (real n)" by simp
  have "real n < real ((r + 1) * (r + 1))" using assms(2) by (simp only: of_nat_less_iff)
  then have "real n < (real r + 1) * (real r + 1)" by (simp only: of_nat_mult of_nat_add of_nat_1)
  then have "sqrt (real n) < sqrt ((real r + 1) * (real r + 1))" by (simp only: real_sqrt_less_iff)
  then have hi: "sqrt (real n) < real r + 1" by simp
  from lo hi show ?thesis by (simp add: floor_eq_iff)
qed

text \<open>
  C5. For every collection of length \<open>L\<close>, the segment size resolved for \<^verbatim>\<open>'smart'\<close> is
  \<open>max 10 \<lfloor>sqrt L\<rfloor>\<close>, where \<open>\<lfloor>sqrt L\<rfloor>\<close> is the natural number \<open>r\<close> with
  \<open>r * r \<le> L < (r + 1) * (r + 1)\<close>; it is the size handed to the segmenter.
\<close>

theorem smart_segment_size:
  "resolveSegmentNum Smart list = max 10 \<lfloor>sqrt (real (length list))\<rfloor>
   \<and> 0 \<le> \<lfloor>sqrt (real (length list))\<rfloor>
   \<and> \<lfloor>sqrt (real (length list))\<rfloor> * \<lfloor>sqrt (real (length list))\<rfloor> \<le> int (length list)
   \<and> int (length list) < (\<lfloor>sqrt (real (length list))\<rfloor> + 1) * (\<lfloor>sqrt (real (length list))\<rfloor> + 1)
   \<and> createSegmentList Smart getSegmentNum list
       = getSegmentNum list (max 10 \<lfloor>sqrt (real (length list))\<rfloor>)"
  using floor_sqrt_bounds[of "length list"]
  by (simp add: resolveSegmentNum_def createSegmentList_def)

section \<open>The scenario of 10,000 items\<close>

lemma length_newRenderList: "length (newRenderList segs guess) = length segs"
  by (simp add: newRenderList_def)

lemma nth_newRenderList:
  "i < length segs \<Longrightarrow>
   newRenderList segs guess ! i
   = (if i = 0 then Rendered (segs ! i) else Placeholder (real (length (segs ! i)) * guess))"
  unfolding newRenderList_def by (subst nth_map_upt) simp_all

lemma segments_of_10000:
  assumes "length list = 10000"
  shows "length (getSegmentList list 100) = 100"
    and "i < 100 \<Longrightarrow> length (getSegmentList list 100 ! i) = 100"
proof -
  have ne: "list \<noteq> []" using assms by auto
  have tp: "nat \<lceil>real (length list) / real_of_int 100\<rceil> = 100"
    using assms by simp
  show "length (getSegmentList list 100) = 100"
    using length_getSegmentList[OF ne, of 100] tp by simp
  show "length (getSegmentList list 100 ! i) = 100" if "i < 100"
  proof -
    have "getSegmentList list 100 ! i = take (nat 100) (drop (i * nat 100) list)"
      using that tp by (intro nth_getSegmentList[OF ne]) simp_all
    then show ?thesis using assms that by simp
  qed
qed

text \<open>
  C3. A collection of 10,000 items with \<^verbatim>\<open>guessItemHeight = 50\<close>, segment size
  \<^verbatim>\<open>'smart'\<close> and header height 0, in the render list that \<^verbatim>\<open>initRenderList\<close> builds and
  with no measurement recorded (every page record is absent or the one \<^verbatim>\<open>initHeight\<close>
  writes when the page query reports nothing): the segment size resolves to 100, there are
  100 segments, and \<^verbatim>\<open>getItemScrollTop(250)\<close> returns scrollTop 250 * 50 = 12500 with
  rendered false (height 50, page 2).
\<close>

theorem scenario_10000_smart:
  assumes "length list = 10000"
    and "guessItemHeight E = 50" and "headerHeight E = 0"
    and "segmentList E = createSegmentList Smart getSegmentList list"
    and "renderList E = newRenderList (segmentList E) (guessItemHeight E)"
    and "\<forall>k. subPageMap E k = None
             \<or> subPageMap E k
                = Some (pageRecord E k \<lparr>info_page_height = 0, info_item_heights = []\<rparr>)"
  shows "resolveSegmentNum Smart list = 100
         \<and> length (segmentList E) = 100
         \<and> getItemScrollTop E 250
             = \<lparr>height = 50, scrollTop = 12500, rendered = False, pageIndex = 2\<rparr>"
proof -
  have "\<lfloor>sqrt (real (length list))\<rfloor> = int 100"
    using assms(1) by (intro floor_sqrt_unique) simp_all
  then have num: "resolveSegmentNum Smart list = 100"
    by (simp add: resolveSegmentNum_def)
  then have segs: "segmentList E = getSegmentList list 100"
    using assms(4) by (simp add: createSegmentList_def)
  have len: "length (segmentList E) = 100"
    and seglen: "\<And>i. i < 100 \<Longrightarrow> length (segmentList E ! i) = 100"
    using segments_of_10000[OF assms(1)] by (simp_all add: segs)
  have rlen: "length (renderList E) = 100"
    by (simp add: assms(5) length_newRenderList len)
  have r0: "renderList E ! 0 = Rendered (segmentList E ! 0)"
    and r1: "renderList E ! 1 = Placeholder 5000"
    and r2: "renderList E ! 2 = Placeholder 5000"
    using len seglen[of 1] seglen[of 2]
    by (simp_all add: assms(5) nth_newRenderList assms(2))
  have start: "segStart (segmentList E) 2 = 200"
  proof -
    have "segStart (segmentList E) (Suc (Suc 0)) = 200"
      using len seglen[of 0] seglen[of 1] by (simp add: segStart_Suc segStart_0)
    then show ?thesis by (simp add: numeral_2_eq_2)
  qed
  have p0: "passedPageHeight E 0 = 5000"
    using assms(6)[rule_format, of 0] r0 seglen[of 0] len
    by (auto simp: passedPageHeight_def pageRecord_def segmentLength_def js_or_def assms(2))
  have p1: "passedPageHeight E 1 = 5000"
    using r1 by (simp add: passedPageHeight_def)
  have "(\<Sum>k = 0..<Suc (Suc 0). passedPageHeight E k) = 10000"
    using p0 p1 by simp
  then have before: "(\<Sum>k = 0..<2. passedPageHeight E k) = 10000"
    by (simp add: numeral_2_eq_2)
  have target: "targetPage E 2 50 = (50, 2500, False)"
    using r2 by (simp add: targetPage_def assms(2))
  have "getItemScrollTop E 250
        = (case targetPage E 2 (nat (250 - int (segStart (segmentList E) 2))) of
             (h, off, r) \<Rightarrow>
               \<lparr>height = h,
                scrollTop = headerHeight E + (\<Sum>k = 0..<2. passedPageHeight E k) + off,
                rendered = r, pageIndex = int 2\<rparr>)"
    using rlen len seglen[of 2] start
    by (intro getItemScrollTop_in_segment) simp_all
  then have "getItemScrollTop E 250
             = \<lparr>height = 50, scrollTop = 12500, rendered = False, pageIndex = 2\<rparr>"
    by (simp add: start target before assms(3))
  with num len show ?thesis by simp
qed

theorem scenario_10000_smart_witness:
  "length tenThousandItems = 10000
   \<and> guessItemHeight sampleEngine = 50
   \<and> resolveSegmentNum Smart tenThousandItems = 100
   \<and> length (segmentList (initRenderList sampleEngine 0 Smart getSegmentList tenThousandItems)) = 100
   \<and> getItemScrollTop (initRenderList sampleEngine 0 Smart getSegmentList tenThousandItems) 250
       = \<lparr>height = 50, scrollTop = 12500, rendered = False, pageIndex = 2\<rparr>"
proof -
  let ?E = "initRenderList sampleEngine 0 Smart getSegmentList tenThousandItems"
  have h1: "length tenThousandItems = 10000"
    unfolding tenThousandItems_def by (simp only: length_replicate)
  have g: "guessItemHeight sampleEngine = 50" by (simp add: sampleEngine_def)
  have h2: "guessItemHeight ?E = 50" and h3: "headerHeight ?E = 0"
    by (simp_all add: initRenderList_def Let_def g)
  have h4: "segmentList ?E = createSegmentList Smart getSegmentList tenThousandItems"
    by (simp add: initRenderList_def Let_def)
  have h5: "renderList ?E = newRenderList (segmentList ?E) (guessItemHeight ?E)"
    by (simp add: initRenderList_def Let_def)
  have h6: "\<forall>k. subPageMap ?E k = None
              \<or> subPageMap ?E k
                 = Some (pageRecord ?E k \<lparr>info_page_height = 0, info_item_heights = []\<rparr>)"
    by (simp add: initRenderList_def Let_def)
  from scenario_10000_smart[OF h1 h2 h3 h4 h5 h6] h1 g show ?thesis by blast
qed

section \<open>Swapping a page between rendered and placeholder\<close>

lemma getItemScrollTop_cong_later:
  assumes same: "segmentList E' = segmentList E" "headerHeight E' = headerHeight E"
      "length (renderList E') = length (renderList E)"
    and passed: "\<And>k. k < p \<Longrightarrow> passedPageHeight E' k = passedPageHeight E k"
    and target: "\<And>pos. targetPage E' p pos = targetPage E p pos"
    and seg: "p < length (renderList E)" "p < length (segmentList E)"
      "int (segStart (segmentList E) p) \<le> j"
      "j < int (segStart (segmentList E) p + length (segmentList E ! p))"
  shows "getItemScrollTop E' j = getItemScrollTop E j"
proof -
  have sums: "(\<Sum>k = 0..<p. passedPageHeight E' k) = (\<Sum>k = 0..<p. passedPageHeight E k)"
    by (rule sum.cong) (simp_all add: passed)
  have "getItemScrollTop E' j
        = (case targetPage E' p (nat (j - int (segStart (segmentList E') p))) of
             (h, off, r) \<Rightarrow>
               \<lparr>height = h,
                scrollTop = headerHeight E' + (\<Sum>k = 0..<p. passedPageHeight E' k) + off,
                rendered = r, pageIndex = int p\<rparr>)"
    using seg by (intro getItemScrollTop_in_segment) (simp_all add: same)
  then show ?thesis
    by (simp add: getItemScrollTop_in_segment[OF seg] same sums target)
qed

lemma passedPageHeight_placeholder:
  assumes "index < length (renderList E)" and "index < length (segmentList E)"
    and "renderList E ! index = Rendered xs"
  shows "passedPageHeight (E\<lparr>renderList := (renderList E)[index := Placeholder (currentHeight E index)]\<rparr>) index
         = passedPageHeight E index"
  using assms
  by (simp add: passedPageHeight_def currentHeight_def segmentLength_def mult.commute Let_def
      split: option.splits)

lemma passedPageHeight_rendered:
  assumes "index < length (renderList E)" and "renderList E ! index = Rendered xs"
  shows "passedPageHeight (E\<lparr>renderList := (renderList E)[index := Rendered ys]\<rparr>) index
         = passedPageHeight E index"
  using assms by (simp add: passedPageHeight_def Let_def split: option.splits)

lemma passedPageHeight_other:
  "k \<noteq> index \<Longrightarrow>
   passedPageHeight (E\<lparr>renderList := (renderList E)[index := v]\<rparr>) k = passedPageHeight E k"
  by (simp add: passedPageHeight_def Let_def split: VirtualListSegment.splits option.splits)

lemma targetPage_other:
  "p \<noteq> index \<Longrightarrow>
   targetPage (E\<lparr>renderList := (renderList E)[index := v]\<rparr>) p pos = targetPage E p pos"
  by (simp add: targetPage_def split: VirtualListSegment.splits option.splits)

text \<open>
  C6. Let page \<open>index\<close> be rendered.  An overlap signal at or below the threshold (or
  without overlap) turns it into a placeholder, and a later signal above the threshold
  turns it back into the rendered page; the page records are not touched in between.  The
  placeholder takes the best known height: the height of the page record if there is one
  and it is not zero, else item count times \<^verbatim>\<open>guessItemHeight\<close>.  That is the height the
  rendered page adds to the positions of later items, so the height the page adds is the
  same before the swap, as a placeholder, and after the swap back, and every item of a
  later page is located at the same place in the three states.
\<close>

theorem placeholder_swap_keeps_height:
  assumes "index < length (renderList E)" and "index < length (segmentList E)"
    and "renderList E ! index = Rendered xs"
    and "rect_height res = 0 \<or> rect_width res = 0
         \<or> intersectionRatio res \<le> INTERSECTION_THRESHOLD"
    and "rect_height res' \<noteq> 0" and "rect_width res' \<noteq> 0"
    and "INTERSECTION_THRESHOLD < intersectionRatio res'"
  shows "\<exists>E1 E2.
           observerCallback E index res = Some E1
         \<and> observerCallback E1 index res' = Some E2
         \<and> renderList E1 = (renderList E)[index := Placeholder (currentHeight E index)]
         \<and> renderList E2 = (renderList E)[index := Rendered (segmentList E ! index)]
         \<and> subPageMap E1 = subPageMap E \<and> subPageMap E2 = subPageMap E
         \<and> currentHeight E index
             = (case subPageMap E index of
                  None \<Rightarrow> real (length (segmentList E ! index)) * guessItemHeight E
                | Some pageData \<Rightarrow>
                    js_or (sub_height pageData)
                          (real (length (segmentList E ! index)) * guessItemHeight E))
         \<and> passedPageHeight E1 index = passedPageHeight E index
         \<and> passedPageHeight E2 index = passedPageHeight E index
         \<and> (\<forall>p j. index < p \<and> p < length (renderList E) \<and> p < length (segmentList E)
                  \<and> int (segStart (segmentList E) p) \<le> j
                  \<and> j < int (segStart (segmentList E) p + length (segmentList E ! p))
                  \<longrightarrow> getItemScrollTop E1 j = getItemScrollTop E j
                      \<and> getItemScrollTop E2 j = getItemScrollTop E j)"
proof -
  let ?E1 = "E\<lparr>renderList := (renderList E)[index := Placeholder (currentHeight E index)]\<rparr>"
  let ?E2 = "E\<lparr>renderList := (renderList E)[index := Rendered (segmentList E ! index)]\<rparr>"
  have c1: "observerCallback E index res = Some ?E1"
    using assms(1,3,4) by (auto simp: observerCallback_def replaceWithPlaceholder_def)
  have "renderActualContent ?E1 index = Some ?E2"
    using assms(1,2) by (simp add: renderActualContent_def)
  then have c2: "observerCallback ?E1 index res' = Some ?E2"
    using assms(5-7) by (simp add: observerCallback_def)
  have best: "currentHeight E index
              = (case subPageMap E index of
                   None \<Rightarrow> real (length (segmentList E ! index)) * guessItemHeight E
                 | Some pageData \<Rightarrow>
                     js_or (sub_height pageData)
                           (real (length (segmentList E ! index)) * guessItemHeight E))"
    using assms(2) by (simp add: currentHeight_def segmentLength_def mult.commute split: option.splits)
  have p1: "passedPageHeight ?E1 index = passedPageHeight E index"
    using assms(1-3) by (rule passedPageHeight_placeholder)
  have p2: "passedPageHeight ?E2 index = passedPageHeight E index"
    using assms(1,3) by (rule passedPageHeight_rendered)
  have later: "getItemScrollTop ?E1 j = getItemScrollTop E j
               \<and> getItemScrollTop ?E2 j = getItemScrollTop E j"
    if "index < p" "p < length (renderList E)" "p < length (segmentList E)"
       "int (segStart (segmentList E) p) \<le> j"
       "j < int (segStart (segmentList E) p + length (segmentList E ! p))" for p j
  proof
    show "getItemScrollTop ?E1 j = getItemScrollTop E j"
    proof (rule getItemScrollTop_cong_later[where p = p])
      show "passedPageHeight ?E1 k = passedPageHeight E k" for k
        using p1 by (cases "k = index") (simp_all add: passedPageHeight_other)
      show "targetPage ?E1 p pos = targetPage E p pos" for pos
        using that(1) by (intro targetPage_other) simp
    qed (use that in simp_all)
    show "getItemScrollTop ?E2 j = getItemScrollTop E j"
    proof (rule getItemScrollTop_cong_later[where p = p])
      show "passedPageHeight ?E2 k = passedPageHeight E k" for k
        using p2 by (cases "k = index") (simp_all add: passedPageHeight_other)
      show "targetPage ?E2 p pos = targetPage E p pos" for pos
        using that(1) by (intro targetPage_other) simp
    qed (use that in simp_all)
  qed
  have all: "\<forall>p j. index < p \<and> p < length (renderList E) \<and> p < length (segmentList E)
                  \<and> int (segStart (segmentList E) p) \<le> j
                  \<and> j < int (segStart (segmentList E) p + length (segmentList E ! p))
                  \<longrightarrow> getItemScrollTop ?E1 j = getItemScrollTop E j
                      \<and> getItemScrollTop ?E2 j = getItemScrollTop E j"
    using later by blast
  show ?thesis
  proof (intro exI conjI)
    show "observerCallback E index res = Some ?E1" by (fact c1)
    show "observerCallback ?E1 index res' = Some ?E2" by (fact c2)
    show "renderList ?E1 = (renderList E)[index := Placeholder (currentHeight E index)]" by simp
    show "renderList ?E2 = (renderList E)[index := Rendered (segmentList E ! index)]" by simp
    show "subPageMap ?E1 = subPageMap E" by simp
    show "subPageMap ?E2 = subPageMap E" by simp
  qed (fact best p1 p2 all)+
qed

lemma sampleEngine_item4: "scrollTop (getItemScrollTop sampleEngine 4) = 260"
  by (simp add: getItemScrollTop_def getItemScrollTop_loop.simps sampleEngine_def
      targetPage_def passedPageHeight_def js_or_def)

theorem placeholder_swap_keeps_height_witness:
  "\<exists>E1 E2.
     observerCallback sampleEngine 0 leaveSignal = Some E1
   \<and> observerCallback E1 0 enterSignal = Some E2
   \<and> renderList E1 = [Placeholder 180, Placeholder 150, Placeholder 50]
   \<and> renderList E2 = renderList sampleEngine
   \<and> passedPageHeight sampleEngine 0 = 180
   \<and> passedPageHeight E1 0 = 180
   \<and> passedPageHeight E2 0 = 180
   \<and> scrollTop (getItemScrollTop sampleEngine 4) = 260
   \<and> scrollTop (getItemScrollTop E1 4) = 260
   \<and> scrollTop (getItemScrollTop E2 4) = 260"
proof -
  have h1: "0 < length (renderList sampleEngine)" and h2: "0 < length (segmentList sampleEngine)"
    and h3: "renderList sampleEngine ! 0 = Rendered [1, 2, 3]"
    by (simp_all add: sampleEngine_def)
  have h4: "rect_height leaveSignal = 0 \<or> rect_width leaveSignal = 0
            \<or> intersectionRatio leaveSignal \<le> INTERSECTION_THRESHOLD"
    by (simp add: leaveSignal_def)
  have h5: "rect_height enterSignal \<noteq> 0" and h6: "rect_width enterSignal \<noteq> 0"
    and h7: "INTERSECTION_THRESHOLD < intersectionRatio enterSignal"
    by (simp_all add: enterSignal_def INTERSECTION_THRESHOLD_def)
  from placeholder_swap_keeps_height[OF h1 h2 h3 h4 h5 h6 h7]
  obtain E1 E2 where c1: "observerCallback sampleEngine 0 leaveSignal = Some E1"
    and c2: "observerCallback E1 0 enterSignal = Some E2"
    and r1: "renderList E1
             = (renderList sampleEngine)[0 := Placeholder (currentHeight sampleEngine 0)]"
    and r2: "renderList E2
             = (renderList sampleEngine)[0 := Rendered (segmentList sampleEngine ! 0)]"
    and p1: "passedPageHeight E1 0 = passedPageHeight sampleEngine 0"
    and p2: "passedPageHeight E2 0 = passedPageHeight sampleEngine 0"
    and later: "\<forall>p j. 0 < p \<and> p < length (renderList sampleEngine)
                  \<and> p < length (segmentList sampleEngine)
                  \<and> int (segStart (segmentList sampleEngine) p) \<le> j
                  \<and> j < int (segStart (segmentList sampleEngine) p
                             + length (segmentList sampleEngine ! p))
                  \<longrightarrow> getItemScrollTop E1 j = getItemScrollTop sampleEngine j
                      \<and> getItemScrollTop E2 j = getItemScrollTop sampleEngine j"
    by blast
  have cur: "currentHeight sampleEngine 0 = 180"
    by (simp add: currentHeight_def sampleEngine_def js_or_def)
  have pp: "passedPageHeight sampleEngine 0 = 180"
    by (simp add: passedPageHeight_def sampleEngine_def js_or_def)
  have rl1: "renderList E1 = [Placeholder 180, Placeholder 150, Placeholder 50]"
    unfolding r1 cur by (simp add: sampleEngine_def)
  have rl2: "renderList E2 = renderList sampleEngine"
    unfolding r2 by (simp add: sampleEngine_def)
  have start: "segStart (segmentList sampleEngine) 1 = 3"
    by (simp add: segStart_def sampleEngine_def)
  have "0 < (1::nat) \<and> 1 < length (renderList sampleEngine)
        \<and> 1 < length (segmentList sampleEngine)
        \<and> int (segStart (segmentList sampleEngine) 1) \<le> 4
        \<and> 4 < int (segStart (segmentList sampleEngine) 1 + length (segmentList sampleEngine ! 1))"
    unfolding start by (simp add: sampleEngine_def)
  with later have same: "getItemScrollTop E1 4 = getItemScrollTop sampleEngine 4"
    "getItemScrollTop E2 4 = getItemScrollTop sampleEngine 4"
    by blast+
  show ?thesis
  proof (intro exI conjI)
    show "observerCallback sampleEngine 0 leaveSignal = Some E1" by (fact c1)
    show "observerCallback E1 0 enterSignal = Some E2" by (fact c2)
    show "renderList E1 = [Placeholder 180, Placeholder 150, Placeholder 50]" by (fact rl1)
    show "renderList E2 = renderList sampleEngine" by (fact rl2)
    show "passedPageHeight sampleEngine 0 = 180" by (fact pp)
    show "passedPageHeight E1 0 = 180" using p1 pp by simp
    show "passedPageHeight E2 0 = 180" using p2 pp by simp
    show "scrollTop (getItemScrollTop sampleEngine 4) = 260" by (fact sampleEngine_item4)
    show "scrollTop (getItemScrollTop E1 4) = 260" using same sampleEngine_item4 by simp
    show "scrollTop (getItemScrollTop E2 4) = 260" using same sampleEngine_item4 by simp
  qed
qed

section \<open>Navigation\<close>

lemma notifyAndReturnTrue_True_iff:
  "(fst (notifyAndReturnTrue onScrollToEnd effects) = Settled (Inr True))
   = (onScrollToEnd = CallbackReturns)"
  by (cases onScrollToEnd) (simp_all add: notifyAndReturnTrue_def)

lemma notifyAndReturnTrue_settles:
  "fst (notifyAndReturnTrue onScrollToEnd effects) \<noteq> NeverSettles"
  by (cases onScrollToEnd) (simp_all add: notifyAndReturnTrue_def)

lemma catchReturnFalse_no_throw: "fst (catchReturnFalse r) \<noteq> Settled (Inl e)"
  by (cases r rule: prod.exhaust, cases "fst r")
     (auto simp: catchReturnFalse_def split: sum.splits)

lemma catchReturnFalse_True_iff:
  "(fst (catchReturnFalse r) = Settled (Inr True)) = (fst r = Settled (Inr True))"
  by (cases r rule: prod.exhaust, cases "fst r")
     (auto simp: catchReturnFalse_def split: sum.splits)

lemma catchReturnFalse_settles:
  "fst r \<noteq> NeverSettles \<Longrightarrow>
   fst (catchReturnFalse r) = Settled (Inr True) \<or> fst (catchReturnFalse r) = Settled (Inr False)"
  by (cases r rule: prod.exhaust, cases "fst r")
     (auto simp: catchReturnFalse_def split: sum.splits)





lemma scrollTo_exact_True_iff:
  "(fst (scrollTo_exact env onScrollToEnd pageIdx item offsetTop) = Settled (Inr True))
   = (scrollSuccess env = Settled (Inr True) \<and> onScrollToEnd = CallbackReturns)"
proof (cases "scrollSuccess env")
  case NeverSettles
  then show ?thesis by (simp add: scrollTo_exact_def)
next
  case (Settled r)
  then show ?thesis
    by (cases r) (auto simp: scrollTo_exact_def notifyAndReturnTrue_True_iff)
qed

lemma scrollTo_exact_settles:
  "scrollSuccess env \<noteq> NeverSettles \<Longrightarrow>
   fst (scrollTo_exact env onScrollToEnd pageIdx item offsetTop) \<noteq> NeverSettles"
proof (cases "scrollSuccess env")
  case NeverSettles
  then show "scrollSuccess env \<noteq> NeverSettles \<Longrightarrow> ?thesis" by simp
next
  case (Settled r)
  then show ?thesis
    by (cases r) (auto simp: scrollTo_exact_def notifyAndReturnTrue_settles)
qed

lemma scrollTo_refine_True_iff:
  "(fst (scrollTo_refine env onScrollToEnd pageIdx item offsetTop jump) = Settled (Inr True))
   = (onScrollToEnd = CallbackReturns
      \<and> (checkElementExists (nowExists env) = Inr False
          \<or> (checkElementExists (nowExists env) = Inr True
              \<and> finalSuccess env = Settled (Inr True))))"
proof (cases "checkElementExists (nowExists env)")
  case (Inl e)
  then show ?thesis by (simp add: scrollTo_refine_def)
next
  case probe: (Inr b)
  show ?thesis
  proof (cases b)
    case False
    with probe show ?thesis
      by (simp add: scrollTo_refine_def notifyAndReturnTrue_True_iff)
  next
    case True
    show ?thesis
    proof (cases "finalSuccess env")
      case NeverSettles
      with probe True show ?thesis by (simp add: scrollTo_refine_def)
    next
      case (Settled r)
      with probe True show ?thesis
        by (cases r) (auto simp: scrollTo_refine_def notifyAndReturnTrue_True_iff)
    qed
  qed
qed

lemma scrollTo_refine_settles:
  assumes "finalSuccess env \<noteq> NeverSettles"
  shows "fst (scrollTo_refine env onScrollToEnd pageIdx item offsetTop jump) \<noteq> NeverSettles"
proof (cases "checkElementExists (nowExists env)")
  case (Inl e)
  then show ?thesis by (simp add: scrollTo_refine_def)
next
  case probe: (Inr b)
  show ?thesis
  proof (cases b)
    case False
    with probe show ?thesis
      by (simp add: scrollTo_refine_def notifyAndReturnTrue_settles)
  next
    case True
    from assms obtain r where "finalSuccess env = Settled r"
      by (cases "finalSuccess env") auto
    with probe True show ?thesis
      by (cases r) (auto simp: scrollTo_refine_def notifyAndReturnTrue_settles)
  qed
qed

lemma scrollTo_estimate_True_iff:
  "(fst (scrollTo_estimate E env onScrollToEnd index pageIdx item offsetTop) = Settled (Inr True))
   = (0 \<le> calculateEstimatedScrollTop E index pageIdx item
      \<and> (\<exists>info. vlInfo env = Settled (Inr info))
      \<and> scrollViewNode env = Settled (Inr (Some (NodeWithScrollTo False)))
      \<and> onScrollToEnd = CallbackReturns
      \<and> (checkElementExists (nowExists env) = Inr False
          \<or> (checkElementExists (nowExists env) = Inr True
              \<and> finalSuccess env = Settled (Inr True))))"
proof (cases "0 \<le> calculateEstimatedScrollTop E index pageIdx item")
  case False
  then show ?thesis by (simp add: scrollTo_estimate_def)
next
  case est: True
  show ?thesis
  proof (cases "vlInfo env")
    case NeverSettles
    then show ?thesis using est by (simp add: scrollTo_estimate_def)
  next
    case vl: (Settled v)
    show ?thesis
    proof (cases v)
      case (Inl e)
      then show ?thesis using est vl by (simp add: scrollTo_estimate_def)
    next
      case info: (Inr info)
      show ?thesis
      proof (cases "scrollViewNode env")
        case NeverSettles
        then show ?thesis using est vl info by (simp add: scrollTo_estimate_def)
      next
        case nd: (Settled n)
        show ?thesis
        proof (cases n)
          case (Inl e)
          then show ?thesis using est vl info nd by (simp add: scrollTo_estimate_def)
        next
          case (Inr nodeOpt)
          show ?thesis
          proof (cases nodeOpt)
            case None
            then show ?thesis using est vl info nd Inr by (simp add: scrollTo_estimate_def)
          next
            case (Some node)
            show ?thesis
            proof (cases node)
              case NodeWithoutScrollTo
              then show ?thesis
                using est vl info nd Inr Some by (simp add: scrollTo_estimate_def)
            next
              case (NodeWithScrollTo throws)
              then show ?thesis
                using est vl info nd Inr Some
                by (simp add: scrollTo_estimate_def Let_def scrollTo_refine_True_iff)
            qed
          qed
        qed
      qed
    qed
  qed
qed

lemma scrollTo_estimate_settles:
  assumes "vlInfo env \<noteq> NeverSettles" and "scrollViewNode env \<noteq> NeverSettles"
    and "finalSuccess env \<noteq> NeverSettles"
  shows "fst (scrollTo_estimate E env onScrollToEnd index pageIdx item offsetTop) \<noteq> NeverSettles"
proof -
  from assms(1) obtain v where vl: "vlInfo env = Settled v" by (cases "vlInfo env") auto
  from assms(2) obtain n where nd: "scrollViewNode env = Settled n"
    by (cases "scrollViewNode env") auto
  show ?thesis
  proof (cases v)
    case (Inl e)
    then show ?thesis using vl by (simp add: scrollTo_estimate_def Let_def)
  next
    case info: (Inr info)
    show ?thesis
    proof (cases n)
      case (Inl e)
      then show ?thesis using vl info nd by (simp add: scrollTo_estimate_def Let_def)
    next
      case (Inr nodeOpt)
      show ?thesis
      proof (cases nodeOpt)
        case None
        then show ?thesis using vl info nd Inr by (simp add: scrollTo_estimate_def Let_def)
      next
        case (Some node)
        then show ?thesis
          using vl info nd Inr scrollTo_refine_settles[OF assms(3)]
          by (cases node) (simp_all add: scrollTo_estimate_def Let_def)
      qed
    qed
  qed
qed

lemma scrollTo_try_True_iff:
  "(fst (scrollTo_try E env onScrollToEnd index offsetTop) = Settled (Inr True))
   = (onScrollToEnd = CallbackReturns
      \<and> ((checkElementExists (elementExists env) = Inr True
           \<and> scrollSuccess env = Settled (Inr True))
          \<or> (checkElementExists (elementExists env) = Inr False
              \<and> 0 \<le> calculateEstimatedScrollTop E index
                      (fst (findPage (segmentList E) index 0 0))
                      (snd (findPage (segmentList E) index 0 0))
              \<and> (\<exists>info. vlInfo env = Settled (Inr info))
              \<and> scrollViewNode env = Settled (Inr (Some (NodeWithScrollTo False)))
              \<and> (checkElementExists (nowExists env) = Inr False
                  \<or> (checkElementExists (nowExists env) = Inr True
                      \<and> finalSuccess env = Settled (Inr True))))))"
proof (cases "checkElementExists (elementExists env)")
  case (Inl e)
  then show ?thesis by (simp add: scrollTo_try_def split: prod.splits)
next
  case (Inr b)
  then show ?thesis
    by (cases b)
       (auto simp: scrollTo_try_def scrollTo_exact_True_iff scrollTo_estimate_True_iff
          split: prod.splits)
qed

lemma scrollTo_try_settles:
  assumes "awaitedCallsSettle env"
  shows "fst (scrollTo_try E env onScrollToEnd index offsetTop) \<noteq> NeverSettles"
proof (cases "checkElementExists (elementExists env)")
  case (Inl e)
  then show ?thesis by (simp add: scrollTo_try_def split: prod.splits)
next
  case (Inr b)
  then show ?thesis
    using assms
    by (cases b)
       (simp_all add: scrollTo_try_def awaitedCallsSettle_def scrollTo_exact_settles
          scrollTo_estimate_settles split: prod.splits)
qed

text \<open>
  C8 (as amended).  For every engine state, index, offset, callback and every behaviour
  of the collaborators, \<^verbatim>\<open>scrollTo\<close> never propagates an exception.  When the awaited
  calls settle it resolves to a boolean.  It resolves to true exactly when initialisation
  is complete, \<^verbatim>\<open>onScrollToEnd\<close> returns, and either the element is present and
  \<^verbatim>\<open>scrollToElement\<close> reports success, or the element is absent (a presence probe that
  times out counts as absent), the estimate is not negative, the scroll-view query answers,
  the node is there with a \<^verbatim>\<open>scrollTo\<close> that does not throw, and after the jump the
  element is still absent or is present and \<^verbatim>\<open>scrollToElement\<close> reports success.  So
  when the awaited calls settle and one on the path throws or rejects, the node is
  missing or a scroll reports failure, it resolves to false.
\<close>

theorem scrollTo_resolves_boolean:
  "(\<forall>e. fst (scrollTo E env onScrollToEnd index offsetTop) \<noteq> Settled (Inl e))
   \<and> (awaitedCallsSettle env \<longrightarrow>
        fst (scrollTo E env onScrollToEnd index offsetTop) = Settled (Inr True)
        \<or> fst (scrollTo E env onScrollToEnd index offsetTop) = Settled (Inr False))
   \<and> (fst (scrollTo E env onScrollToEnd index offsetTop) = Settled (Inr True))
     = (isCompleted E \<and> onScrollToEnd = CallbackReturns
        \<and> ((checkElementExists (elementExists env) = Inr True
             \<and> scrollSuccess env = Settled (Inr True))
            \<or> (checkElementExists (elementExists env) = Inr False
                \<and> 0 \<le> calculateEstimatedScrollTop E index
                        (fst (findPage (segmentList E) index 0 0))
                        (snd (findPage (segmentList E) index 0 0))
                \<and> (\<exists>info. vlInfo env = Settled (Inr info))
                \<and> scrollViewNode env = Settled (Inr (Some (NodeWithScrollTo False)))
                \<and> (checkElementExists (nowExists env) = Inr False
                    \<or> (checkElementExists (nowExists env) = Inr True
                        \<and> finalSuccess env = Settled (Inr True))))))"
proof (intro conjI allI impI)
  fix e
  show "fst (scrollTo E env onScrollToEnd index offsetTop) \<noteq> Settled (Inl e)"
    by (simp add: scrollTo_def catchReturnFalse_no_throw)
next
  assume "awaitedCallsSettle env"
  then have "fst (scrollTo_try E env onScrollToEnd index offsetTop) \<noteq> NeverSettles"
    by (rule scrollTo_try_settles)
  then show "fst (scrollTo E env onScrollToEnd index offsetTop) = Settled (Inr True)
             \<or> fst (scrollTo E env onScrollToEnd index offsetTop) = Settled (Inr False)"
    by (simp add: scrollTo_def catchReturnFalse_settles)
next
  have "(fst (scrollTo E env onScrollToEnd index offsetTop) = Settled (Inr True))
        = (isCompleted E
           \<and> fst (scrollTo_try E env onScrollToEnd index offsetTop) = Settled (Inr True))"
    by (simp add: scrollTo_def catchReturnFalse_True_iff)
  then show "(fst (scrollTo E env onScrollToEnd index offsetTop) = Settled (Inr True))
     = (isCompleted E \<and> onScrollToEnd = CallbackReturns
        \<and> ((checkElementExists (elementExists env) = Inr True
             \<and> scrollSuccess env = Settled (Inr True))
            \<or> (checkElementExists (elementExists env) = Inr False
                \<and> 0 \<le> calculateEstimatedScrollTop E index
                        (fst (findPage (segmentList E) index 0 0))
                        (snd (findPage (segmentList E) index 0 0))
                \<and> (\<exists>info. vlInfo env = Settled (Inr info))
                \<and> scrollViewNode env = Settled (Inr (Some (NodeWithScrollTo False)))
                \<and> (checkElementExists (nowExists env) = Inr False
                    \<or> (checkElementExists (nowExists env) = Inr True
                        \<and> finalSuccess env = Settled (Inr True))))))"
    by (simp only: scrollTo_try_True_iff)
qed

text \<open>
  An instance with a failing collaborator: in \<open>visibleEnv\<close> every awaited call settles,
  the element is absent and the scroll-view query of \<^verbatim>\<open>scrollTo\<close> rejects; the result is
  false.
\<close>

theorem scrollTo_resolves_boolean_witness:
  "awaitedCallsSettle visibleEnv
   \<and> vlInfo visibleEnv = Settled (Inl Rejected)
   \<and> (\<forall>e. fst (scrollTo sampleEngine visibleEnv CallbackReturns 5 0) \<noteq> Settled (Inl e))
   \<and> fst (scrollTo sampleEngine visibleEnv CallbackReturns 5 0) \<noteq> Settled (Inr True)
   \<and> fst (scrollTo sampleEngine visibleEnv CallbackReturns 5 0) = Settled (Inr False)"
proof -
  have s: "awaitedCallsSettle visibleEnv"
    by (simp add: awaitedCallsSettle_def visibleEnv_def)
  have vl: "vlInfo visibleEnv = Settled (Inl Rejected)" by (simp add: visibleEnv_def)
  have probe: "checkElementExists (elementExists visibleEnv) = Inr False"
    by (simp add: visibleEnv_def checkElementExists_def)
  note T = scrollTo_resolves_boolean[of sampleEngine visibleEnv CallbackReturns 5 0]
  from T have no_throw: "\<forall>e. fst (scrollTo sampleEngine visibleEnv CallbackReturns 5 0)
                           \<noteq> Settled (Inl e)"
    by blast
  from T vl probe
  have not_true: "fst (scrollTo sampleEngine visibleEnv CallbackReturns 5 0) \<noteq> Settled (Inr True)"
    by simp
  from T s have "fst (scrollTo sampleEngine visibleEnv CallbackReturns 5 0) = Settled (Inr True)
                 \<or> fst (scrollTo sampleEngine visibleEnv CallbackReturns 5 0) = Settled (Inr False)"
    by blast
  with not_true
  have "fst (scrollTo sampleEngine visibleEnv CallbackReturns 5 0) = Settled (Inr False)"
    by blast
  with s vl no_throw not_true show ?thesis by blast
qed

lemma findPage_sample5: "findPage (segmentList sampleEngine) 5 0 0 = (1, 2)"
  by (simp add: sampleEngine_def)

lemma sampleEngine_item5: "getItemScrollTop sampleEngine 5
   = \<lparr>height = 50, scrollTop = 310, rendered = False, pageIndex = 1\<rparr>"
  by (simp add: getItemScrollTop_def getItemScrollTop_loop.simps sampleEngine_def
      targetPage_def passedPageHeight_def js_or_def)

lemma estimate_sample5: "calculateEstimatedScrollTop sampleEngine 5 (Suc 0) 2 = 310"
  by (simp add: calculateEstimatedScrollTop_def sampleEngine_item5)
     (simp add: sampleEngine_def currentHeightEstimate_def segmentLength_def js_or_def)

text \<open>
  C8 as stated fails where it promises false for a query that times out: in
  \<open>timeoutEnv\<close> both presence probes time out, the jump to the estimate 310 is made, and
  \<^verbatim>\<open>scrollTo\<close> resolves to true.
\<close>

theorem scrollTo_timeout_counterexample:
  "isCompleted sampleEngine
   \<and> elementExists timeoutEnv = TimedOut \<and> nowExists timeoutEnv = TimedOut
   \<and> scrollTo sampleEngine timeoutEnv CallbackReturns 5 0
       = (Settled (Inr True), [NodeScrollTo 310, ScrollEndNotified])"
proof -
  have probe1: "checkElementExists (elementExists timeoutEnv) = Inr False"
    and probe2: "checkElementExists (nowExists timeoutEnv) = Inr False"
    by (simp_all add: timeoutEnv_def checkElementExists_def)
  have vl: "vlInfo timeoutEnv
            = Settled (Inr \<lparr>view_height = 600, view_scrollHeight = 400, view_scrollTop = 0\<rparr>)"
    and node: "scrollViewNode timeoutEnv = Settled (Inr (Some (NodeWithScrollTo False)))"
    by (simp_all add: timeoutEnv_def)
  have refine: "scrollTo_refine timeoutEnv CallbackReturns (Suc 0) 2 0 jump
                = (Settled (Inr True), [jump, ScrollEndNotified])" for jump
    by (simp add: scrollTo_refine_def probe2 notifyAndReturnTrue_def)
  have est: "scrollTo_estimate sampleEngine timeoutEnv CallbackReturns 5 (Suc 0) 2 0
             = (Settled (Inr True), [NodeScrollTo 310, ScrollEndNotified])"
    by (simp add: scrollTo_estimate_def estimate_sample5 vl node refine)
  have "scrollTo_try sampleEngine timeoutEnv CallbackReturns 5 0
        = (Settled (Inr True), [NodeScrollTo 310, ScrollEndNotified])"
    by (simp add: scrollTo_try_def findPage_sample5 probe1 est)
  moreover have "isCompleted sampleEngine" by (simp add: sampleEngine_def)
  moreover have "elementExists timeoutEnv = TimedOut" "nowExists timeoutEnv = TimedOut"
    by (simp_all add: timeoutEnv_def)
  ultimately show ?thesis by (simp add: scrollTo_def catchReturnFalse_def)
qed

text \<open>
  Where an awaited call never settles \<^verbatim>\<open>scrollTo\<close> does not resolve: in
  \<open>silentNodeEnv\<close> the element is absent, the scroll-view query answers and the node
  query is never answered.
\<close>

lemma scrollTo_silent_node:
  "scrollTo sampleEngine silentNodeEnv onScrollToEnd 5 0 = (NeverSettles, [])"
proof -
  have probe: "checkElementExists (elementExists silentNodeEnv) = Inr False"
    by (simp add: silentNodeEnv_def checkElementExists_def)
  have vl: "vlInfo silentNodeEnv
            = Settled (Inr \<lparr>view_height = 600, view_scrollHeight = 400, view_scrollTop = 0\<rparr>)"
    and node: "scrollViewNode silentNodeEnv = NeverSettles"
    by (simp_all add: silentNodeEnv_def)
  have est: "scrollTo_estimate sampleEngine silentNodeEnv onScrollToEnd 5 (Suc 0) 2 0
             = (NeverSettles, [])"
    by (simp add: scrollTo_estimate_def estimate_sample5 vl node)
  have "scrollTo_try sampleEngine silentNodeEnv onScrollToEnd 5 0 = (NeverSettles, [])"
    by (simp add: scrollTo_try_def findPage_sample5 probe est)
  moreover have "isCompleted sampleEngine" by (simp add: sampleEngine_def)
  ultimately show ?thesis by (simp add: scrollTo_def catchReturnFalse_def)
qed

section \<open>Watcher installation\<close>

lemma call_disjoint:
  "observers W \<inter> observerCreating W = {} \<Longrightarrow>
   observers (createIntersectionObserver_call W index retryCount)
   \<inter> observerCreating (createIntersectionObserver_call W index retryCount) = {}"
  by (auto simp: createIntersectionObserver_call_def)

lemma resume_disjoint:
  "observers W \<inter> observerCreating W = {} \<Longrightarrow>
   observers (createIntersectionObserver_resume W index retryCount probe createThrows)
   \<inter> observerCreating (createIntersectionObserver_resume W index retryCount probe createThrows) = {}"
  by (cases probe) (auto simp: createIntersectionObserver_resume_def)

lemma step_disjoint:
  assumes "observers W \<inter> observerCreating W = {}"
  shows "observers (step W ev) \<inter> observerCreating (step W ev) = {}"
proof (cases ev)
  case (InstallRequest index)
  then show ?thesis using assms by (simp add: step_def call_disjoint)
next
  case (ProbeAnswered k probe createThrows)
  show ?thesis
  proof (cases "k < length (awaiting W)")
    case True
    obtain index retryCount where a: "awaiting W ! k = (index, retryCount)"
      by (cases "awaiting W ! k") auto
    have "observers (W\<lparr>awaiting := remove_nth k (awaiting W)\<rparr>)
          \<inter> observerCreating (W\<lparr>awaiting := remove_nth k (awaiting W)\<rparr>) = {}"
      using assms by simp
    then show ?thesis
      using ProbeAnswered True a by (simp add: step_def resume_disjoint)
  next
    case False
    then show ?thesis using ProbeAnswered assms by (simp add: step_def)
  qed
next
  case (RetryTimerFired k)
  show ?thesis
  proof (cases "k < length (retryTimers W)")
    case True
    obtain index retryCount where a: "retryTimers W ! k = (index, retryCount)"
      by (cases "retryTimers W ! k") auto
    have "observers (W\<lparr>retryTimers := remove_nth k (retryTimers W)\<rparr>)
          \<inter> observerCreating (W\<lparr>retryTimers := remove_nth k (retryTimers W)\<rparr>) = {}"
      using assms by simp
    then show ?thesis
      using RetryTimerFired True a by (simp add: step_def call_disjoint)
  next
    case False
    then show ?thesis using RetryTimerFired assms by (simp add: step_def)
  qed
next
  case ObserversCleared
  then show ?thesis by (simp add: step_def clearObservers_def)
next
  case (SegmentListSet n)
  then show ?thesis using assms by (simp add: step_def)
qed

lemma reachable_disjoint:
  "reachable W \<Longrightarrow> observers W \<inter> observerCreating W = {}"
proof (induction rule: reachable.induct)
  case reachable_init
  then show ?case by (simp add: initialWatchers_def)
next
  case (reachable_step W ev)
  then show ?case by (simp add: step_disjoint)
qed

lemma reachable_foldl: "reachable W \<Longrightarrow> reachable (foldl step W evs)"
  by (induction evs arbitrary: W) (simp_all add: reachable_step)

text \<open>
  C9. In every state reachable by the turns of the step relation, no segment index is
  both in the active-watcher set \<^verbatim>\<open>observersRef\<close> and in the pending-creation set
  \<^verbatim>\<open>observerCreatingRef\<close>, and an install request for an index that is in either set
  changes nothing.
\<close>

theorem watcher_sets_disjoint:
  assumes "reachable W"
  shows "observers W \<inter> observerCreating W = {}
         \<and> (\<forall>index retryCount.
               index \<in> observers W \<union> observerCreating W
               \<longrightarrow> createIntersectionObserver_call W index retryCount = W
                   \<and> step W (InstallRequest index) = W)"
  using reachable_disjoint[OF assms]
  by (auto simp: createIntersectionObserver_call_def step_def)

lemma sampleWatchers_value:
  "sampleWatchers
   = \<lparr>observers = {1}, observerCreating = {2}, segmentCount = 3,
      awaiting = [(2, 0)], retryTimers = []\<rparr>"
proof -
  have "{2, 1} - {1} = {2::int}" by auto
  then show ?thesis
    by (simp add: sampleWatchers_def initialWatchers_def step_def remove_nth_def
        createIntersectionObserver_call_def createIntersectionObserver_resume_def)
qed

theorem watcher_sets_disjoint_witness:
  "reachable sampleWatchers
   \<and> observers sampleWatchers = {1} \<and> observerCreating sampleWatchers = {2}
   \<and> observers sampleWatchers \<inter> observerCreating sampleWatchers = {}
   \<and> createIntersectionObserver_call sampleWatchers 1 0 = sampleWatchers
   \<and> step sampleWatchers (InstallRequest 2) = sampleWatchers"
proof -
  have r: "reachable sampleWatchers"
    unfolding sampleWatchers_def by (rule reachable_foldl) (rule reachable_init)
  have o: "observers sampleWatchers = {1}" and c: "observerCreating sampleWatchers = {2}"
    by (simp_all add: sampleWatchers_value)
  from watcher_sets_disjoint[OF r] o c r show ?thesis by simp
qed

end
